theory Spec2Isabelle
  imports Main
begin

section \<open>The deployment-check action: endpoint polling with bounded retries\<close>

text \<open>
  A shallow embedding of \<^verbatim>\<open>.github/actions/deployment-check/index.js\<close>:
  the probe \<^verbatim>\<open>checkEndpoint\<close> and the action \<^verbatim>\<open>run\<close>.

  JavaScript strings are lists of 8-bit characters, read as the code units
  U+0000 to U+00FF. Numbers are mathematical integers: the counters and the
  parsed inputs of the action are integral, and a double holds every integer
  below \<open>2 ^ 53\<close> exactly.
\<close>

subsection \<open>Strings and numbers of the language\<close>

text \<open>
  White space and line terminators, as \<^verbatim>\<open>String.prototype.trim\<close> and
  \<^verbatim>\<open>parseInt\<close> skip them: tab, line feed, vertical tab, form feed,
  carriage return, space and no-break space.
\<close>

definition is_ws :: "char \<Rightarrow> bool" where
  "is_ws c \<longleftrightarrow> c \<in> {CHR 0x09, CHR 0x0A, CHR 0x0B, CHR 0x0C, CHR 0x0D, CHR 0x20, CHR 0xA0}"

definition trim :: "string \<Rightarrow> string" where
  "trim s = rev (dropWhile is_ws (rev (dropWhile is_ws s)))"

text \<open>\<^verbatim>\<open>s.split(',')\<close>: the pieces between commas; the empty string has one empty piece.\<close>

fun split_comma :: "string \<Rightarrow> string list" where
  "split_comma [] = [[]]"
| "split_comma (c # cs) =
     (if c = CHR '','' then [] # split_comma cs
      else (case split_comma cs of
              [] \<Rightarrow> [[c]]
            | p # ps \<Rightarrow> (c # p) # ps))"

text \<open>The value of a digit in radix 10 or 16, \<open>None\<close> for any other character.\<close>

definition digit_value :: "nat \<Rightarrow> char \<Rightarrow> nat option" where
  "digit_value radix c =
     (let n = (of_char c :: nat) in
      if 48 \<le> n \<and> n \<le> 57 then Some (n - 48)
      else if radix = 16 \<and> 97 \<le> n \<and> n \<le> 102 then Some (n - 87)
      else if radix = 16 \<and> 65 \<le> n \<and> n \<le> 70 then Some (n - 55)
      else None)"

text \<open>
  \<^verbatim>\<open>parseInt(s)\<close> with no radix: leading white space is skipped, then an
  optional sign, then an optional \<^verbatim>\<open>0x\<close> prefix that selects radix 16, then the
  longest run of digits. \<open>None\<close> is \<^verbatim>\<open>NaN\<close>: no digit was found.
\<close>

definition parseInt :: "string \<Rightarrow> int option" where
  "parseInt s =
     (let s0 = dropWhile is_ws s;
          sign = (case s0 of c # _ \<Rightarrow> if c = CHR ''-'' then (-1::int) else 1 | [] \<Rightarrow> 1);
          s1 = (case s0 of c # r \<Rightarrow> if c = CHR ''-'' \<or> c = CHR ''+'' then r else s0 | [] \<Rightarrow> s0);
          hex = (case s1 of a # b # _ \<Rightarrow> a = CHR ''0'' \<and> (b = CHR ''x'' \<or> b = CHR ''X'') | _ \<Rightarrow> False);
          radix = (if hex then 16 else 10::nat);
          s2 = (if hex then drop 2 s1 else s1);
          z = takeWhile (\<lambda>c. digit_value radix c \<noteq> None) s2
      in if z = [] then None
         else Some (sign * int (foldl (\<lambda>acc c. acc * radix + the (digit_value radix c)) 0 z)))"

text \<open>
  \<^verbatim>\<open>x || d\<close> for a number \<open>x\<close>: \<^verbatim>\<open>NaN\<close> and zero are falsy and give the
  default \<open>d\<close>, every other number is kept.
\<close>

fun or_default :: "int option \<Rightarrow> int \<Rightarrow> int" where
  "or_default None d = d"
| "or_default (Some n) d = (if n = 0 then d else n)"

text \<open>A number in a template literal: decimal digits, with a minus sign when negative.\<close>

fun show_nat :: "nat \<Rightarrow> string" where
  "show_nat n =
     (if n < 10 then [char_of (48 + n)]
      else show_nat (n div 10) @ [char_of (48 + n mod 10)])"

declare show_nat.simps [simp del]

definition show_int :: "int \<Rightarrow> string" where
  "show_int i = (if i < 0 then CHR ''-'' # show_nat (nat (- i)) else show_nat (nat i))"

subsection \<open>Reports, effects and the state of a run\<close>

text \<open>
  The objects pushed to \<^verbatim>\<open>results\<close>:
  \<^verbatim>\<open>{endpoint, status: 'healthy', attempts}\<close> and
  \<^verbatim>\<open>{endpoint, status: 'unhealthy', error}\<close>.
\<close>

datatype report =
    Healthy string int
  | Unhealthy string string

fun endpoint_of :: "report \<Rightarrow> string" where
  "endpoint_of (Healthy e _) = e"
| "endpoint_of (Unhealthy e _) = e"

fun status_of :: "report \<Rightarrow> string" where
  "status_of (Healthy _ _) = ''healthy''"
| "status_of (Unhealthy _ _) = ''unhealthy''"

text \<open>
  What the network does to one request: the response ends with a status code
  and a body, the request fails with an error (the \<^verbatim>\<open>'error'\<close> event, or
  \<^verbatim>\<open>https.get\<close> throwing on a malformed URL) carrying its message, the
  \<^verbatim>\<open>'timeout'\<close> event fires first, or the response starts and the connection
  is closed before its \<^verbatim>\<open>'end'\<close>. In the last case the response is aborted,
  but \<^verbatim>\<open>checkEndpoint\<close> listens on the response for \<^verbatim>\<open>'data'\<close> and
  \<^verbatim>\<open>'end'\<close> only, and the request emits neither \<^verbatim>\<open>'error'\<close> nor
  \<^verbatim>\<open>'timeout'\<close>.
\<close>

datatype probe_event =
    Response int string
  | Errored string
  | Timeout
  | Aborted

text \<open>
  The network is a parameter: the event that meets the \<open>i\<close>-th request of the
  run, given its URL and its timeout.
\<close>

type_synonym network = "nat \<Rightarrow> string \<Rightarrow> int \<Rightarrow> probe_event"

text \<open>The lines written with \<^verbatim>\<open>core.info\<close>, each kept as its template and arguments.\<close>

datatype log_line =
    Starting_check string
  | Checking_endpoints "string list"
  | Checking_endpoint string int int
  | Endpoint_healthy string
  | Attempt_failed int int int

text \<open>
  The value of an output: a string, or \<^verbatim>\<open>JSON.stringify\<close> of the list of
  reports (the serialisation itself belongs to the language).
\<close>

datatype out_value =
    Str string
  | Json "report list"

text \<open>
  Everything the action does to the outside, in order: log lines, requests
  sent (\<^verbatim>\<open>https.get\<close> with URL and timeout; the \<^verbatim>\<open>User-Agent\<close> header is
  the same on every request and is left out), requests destroyed, timers
  awaited (\<^verbatim>\<open>setTimeout\<close> with its delay in milliseconds), outputs set and
  the failure mark (\<^verbatim>\<open>core.setFailed\<close>).
\<close>

datatype effect =
    Info log_line
  | Get string int
  | Destroy string
  | Sleep int
  | SetOutput string out_value
  | SetFailed string

record state =
  results :: "report list"
  trace :: "effect list"
  clock :: nat

definition emit :: "effect \<Rightarrow> state \<Rightarrow> state" where
  "emit e s = s\<lparr>trace := trace s @ [e]\<rparr>"

definition push :: "report \<Rightarrow> state \<Rightarrow> state" where
  "push r s = s\<lparr>results := results s @ [r]\<rparr>"

text \<open>
  How a block ends: normally, by throwing an \<^verbatim>\<open>Error\<close> with a message, or
  not at all, when it awaits a promise that never settles.
\<close>

datatype completion =
    Normal
  | Throw string
  | Hang

subsection \<open>checkEndpoint\<close>

text \<open>
  What becomes of the promise of \<^verbatim>\<open>checkEndpoint\<close>: \<open>Resolved\<close> is
  \<^verbatim>\<open>resolve({statusCode, data})\<close>, \<open>Rejected\<close> is \<^verbatim>\<open>reject\<close> with the
  error's message, \<open>Pending\<close> is a promise that is never settled.
\<close>

datatype settlement =
    is_Resolved: Resolved int string
  | is_Rejected: Rejected (message_of: string)
  | Pending

text \<open>
  The three handlers that settle the promise are the response's
  \<^verbatim>\<open>'end'\<close> and the request's \<^verbatim>\<open>'error'\<close> and \<^verbatim>\<open>'timeout'\<close>; an aborted
  response reaches none of them.
\<close>

fun settle :: "probe_event \<Rightarrow> settlement" where
  "settle (Response statusCode data) =
     (if statusCode \<ge> 200 \<and> statusCode < 300 then Resolved statusCode data
      else Rejected (''HTTP Status: '' @ show_int statusCode))"
| "settle (Errored message) = Rejected message"
| "settle Timeout = Rejected ''Request timed out''"
| "settle Aborted = Pending"

text \<open>
  One probe: the request is sent, the network answers it, and on a timeout
  the handler destroys the request before it rejects.
\<close>

definition checkEndpoint ::
  "network \<Rightarrow> string \<Rightarrow> int \<Rightarrow> state \<Rightarrow> settlement \<times> state" where
  "checkEndpoint net url timeout s =
     (let s1 = (emit (Get url timeout) s)\<lparr>clock := Suc (clock s)\<rparr>;
          ev = net (clock s) url timeout
      in (settle ev, if ev = Timeout then emit (Destroy url) s1 else s1))"

subsection \<open>run\<close>

text \<open>
  \<^verbatim>\<open>core.getInput\<close> belongs to the actions toolkit and is a parameter: given
  the name of an input and whether it is required, it returns the input's
  value (\<open>Inr\<close>) or throws (\<open>Inl\<close>, with the message).
\<close>

type_synonym get_input = "string \<Rightarrow> bool \<Rightarrow> string + string"

text \<open>
  The inputs as the first lines of \<^verbatim>\<open>run\<close> read them: environment,
  endpoints, maxRetries and retryDelay.
\<close>

definition get_inputs :: "get_input \<Rightarrow> string + (string \<times> string list \<times> int \<times> int)" where
  "get_inputs getInput =
     (case getInput ''environment'' True of
        Inl m \<Rightarrow> Inl m
      | Inr environment \<Rightarrow>
     (case getInput ''endpoints'' True of
        Inl m \<Rightarrow> Inl m
      | Inr e \<Rightarrow>
     (case getInput ''max-retries'' False of
        Inl m \<Rightarrow> Inl m
      | Inr mr \<Rightarrow>
     (case getInput ''retry-delay'' False of
        Inl m \<Rightarrow> Inl m
      | Inr rd \<Rightarrow>
          Inr (environment, split_comma e,
               or_default (parseInt mr) 5, or_default (parseInt rd) 30)))))"

text \<open>
  The body of the \<^verbatim>\<open>while\<close> loop, on the loop variables \<open>retries\<close> and
  \<open>success\<close>: one probe of the trimmed endpoint with the default timeout of
  5000 ms, then the \<^verbatim>\<open>try\<close> branch or the \<^verbatim>\<open>catch\<close> branch. When the
  promise stays pending, the \<^verbatim>\<open>await\<close> never resumes and neither branch runs.
\<close>

definition loop_body ::
  "network \<Rightarrow> int \<Rightarrow> int \<Rightarrow> string \<Rightarrow> int \<times> bool \<times> state \<Rightarrow> completion \<times> int \<times> bool \<times> state" where
  "loop_body net maxRetries retryDelay endpoint v =
     (case v of (retries, success, s) \<Rightarrow>
        (let s1 = emit (Info (Checking_endpoint endpoint (retries + 1) maxRetries)) s in
         case checkEndpoint net (trim endpoint) 5000 s1 of
           (Resolved _ _, s2) \<Rightarrow>
             (Normal, retries, True,
              emit (Info (Endpoint_healthy endpoint)) (push (Healthy endpoint (retries + 1)) s2))
         | (Pending, s2) \<Rightarrow> (Hang, retries, success, s2)
         | (Rejected message, s2) \<Rightarrow>
             (let retries' = retries + 1 in
              if retries' = maxRetries then
                (Throw (''Failed to verify endpoint '' @ endpoint @ '' after ''
                        @ show_int maxRetries @ '' attempts: '' @ message),
                 retries', success, push (Unhealthy endpoint message) s2)
              else
                (Normal, retries', success,
                 emit (Sleep (retryDelay * 1000))
                   (emit (Info (Attempt_failed retries' maxRetries retryDelay)) s2)))))"

text \<open>
  The \<^verbatim>\<open>while (retries < maxRetries && !success)\<close> loop for one endpoint. A
  throw leaves the loop with the state as it is then, and so does a probe
  that stays pending.
\<close>

function while_loop ::
  "network \<Rightarrow> int \<Rightarrow> int \<Rightarrow> string \<Rightarrow> int \<times> bool \<times> state \<Rightarrow> completion \<times> int \<times> bool \<times> state" where
  "while_loop net maxRetries retryDelay endpoint (retries, success, s) =
     (if retries < maxRetries \<and> \<not> success then
        (case loop_body net maxRetries retryDelay endpoint (retries, success, s) of
           (Throw m, v) \<Rightarrow> (Throw m, v)
         | (Hang, v) \<Rightarrow> (Hang, v)
         | (Normal, v) \<Rightarrow> while_loop net maxRetries retryDelay endpoint v)
      else (Normal, retries, success, s))"
  by pat_completeness auto
termination
proof (relation "measure (\<lambda>(net, maxRetries, retryDelay, endpoint, retries, success, s).
                    nat (maxRetries - retries) + (if success then 0 else 1))")
  show "wf (measure (\<lambda>(net, maxRetries, retryDelay, endpoint, retries, success, s).
                    nat (maxRetries - retries) + (if success then (0::nat) else 1)))"
    by simp
next
  fix net :: network and maxRetries retryDelay :: int and endpoint :: string
    and retries :: int and success :: bool and s :: state
    and c :: completion and v :: "int \<times> bool \<times> state"
  assume "retries < maxRetries \<and> \<not> success"
    and "(c, v) = loop_body net maxRetries retryDelay endpoint (retries, success, s)"
    and "c = Normal"
  then show "((net, maxRetries, retryDelay, endpoint, v),
              (net, maxRetries, retryDelay, endpoint, retries, success, s))
     \<in> measure (\<lambda>(net, maxRetries, retryDelay, endpoint, retries, success, s).
                    nat (maxRetries - retries) + (if success then 0 else 1))"
    by (auto simp: loop_body_def Let_def split: prod.splits settlement.splits if_splits)
qed

declare while_loop.simps [simp del]

text \<open>
  The \<^verbatim>\<open>for (const endpoint of endpoints)\<close> loop: each endpoint starts with
  \<open>retries = 0\<close> and \<open>success = false\<close>; a throw ends the loop, and a
  pending probe keeps it from going on.
\<close>

fun for_loop :: "network \<Rightarrow> int \<Rightarrow> int \<Rightarrow> string list \<Rightarrow> state \<Rightarrow> completion \<times> state" where
  "for_loop net maxRetries retryDelay [] s = (Normal, s)"
| "for_loop net maxRetries retryDelay (endpoint # rest) s =
     (case while_loop net maxRetries retryDelay endpoint (0, False, s) of
        (Throw m, _, _, s') \<Rightarrow> (Throw m, s')
      | (Hang, _, _, s') \<Rightarrow> (Hang, s')
      | (Normal, _, _, s') \<Rightarrow> for_loop net maxRetries retryDelay rest s')"

text \<open>
  The \<^verbatim>\<open>try\<close> block after the inputs are read: two log lines, the loop over
  the endpoints and, when it ends normally, the three outputs. \<open>now\<close> is
  \<^verbatim>\<open>new Date().toISOString()\<close> at that moment.
\<close>

definition started :: "string \<Rightarrow> string list \<Rightarrow> state" where
  "started environment endpoints =
     emit (Info (Checking_endpoints endpoints))
       (emit (Info (Starting_check environment)) \<lparr>results = [], trace = [], clock = 0\<rparr>)"

definition run_body ::
  "network \<Rightarrow> string \<Rightarrow> string \<Rightarrow> string list \<Rightarrow> int \<Rightarrow> int \<Rightarrow> completion \<times> state" where
  "run_body net now environment endpoints maxRetries retryDelay =
     (case for_loop net maxRetries retryDelay endpoints (started environment endpoints) of
        (Throw m, s) \<Rightarrow> (Throw m, s)
      | (Hang, s) \<Rightarrow> (Hang, s)
      | (Normal, s) \<Rightarrow>
          (Normal,
           emit (SetOutput ''results'' (Json (results s)))
             (emit (SetOutput ''timestamp'' (Str now))
               (emit (SetOutput ''status'' (Str ''success'')) s))))"

text \<open>
  The action: the \<^verbatim>\<open>try\<close> block and its \<^verbatim>\<open>catch\<close>, which marks the run as
  failed with the message of whatever was thrown. The result is the state in
  which the action ends or, when a probe stays pending, the state in which it
  stops for good: no output is set then and the run is not marked as failed.
\<close>

definition run :: "get_input \<Rightarrow> network \<Rightarrow> string \<Rightarrow> state" where
  "run getInput net now =
     (case (case get_inputs getInput of
              Inl m \<Rightarrow> (Throw m, \<lparr>results = [], trace = [], clock = 0\<rparr>)
            | Inr (environment, endpoints, maxRetries, retryDelay) \<Rightarrow>
                run_body net now environment endpoints maxRetries retryDelay) of
        (Normal, s) \<Rightarrow> s
      | (Hang, s) \<Rightarrow> s
      | (Throw m, s) \<Rightarrow> emit (SetFailed (''Deployment check failed: '' @ m)) s)"

subsection \<open>Reading a trace\<close>

fun probe_of :: "effect \<Rightarrow> string list" where
  "probe_of (Get url _) = [url]"
| "probe_of _ = []"

fun sleep_of :: "effect \<Rightarrow> int list" where
  "sleep_of (Sleep ms) = [ms]"
| "sleep_of _ = []"

fun output_of :: "effect \<Rightarrow> (string \<times> out_value) list" where
  "output_of (SetOutput name v) = [(name, v)]"
| "output_of _ = []"

fun failure_of :: "effect \<Rightarrow> string list" where
  "failure_of (SetFailed m) = [m]"
| "failure_of _ = []"

text \<open>The URLs requested, the delays awaited, the outputs set and the failure marks, in order.\<close>

definition probes_of :: "effect list \<Rightarrow> string list" where
  "probes_of tr = concat (map probe_of tr)"

definition sleeps_of :: "effect list \<Rightarrow> int list" where
  "sleeps_of tr = concat (map sleep_of tr)"

definition outputs_of :: "effect list \<Rightarrow> (string \<times> out_value) list" where
  "outputs_of tr = concat (map output_of tr)"

definition failures_of :: "effect list \<Rightarrow> string list" where
  "failures_of tr = concat (map failure_of tr)"

text \<open>
  \<open>grows s s' rs ps zs\<close>: from \<open>s\<close> to \<open>s'\<close> the reports \<open>rs\<close> were pushed,
  the URLs \<open>ps\<close> were requested, the delays \<open>zs\<close> were awaited, and no output
  or failure mark was set.
\<close>

definition grows :: "state \<Rightarrow> state \<Rightarrow> report list \<Rightarrow> string list \<Rightarrow> int list \<Rightarrow> bool" where
  "grows s s' rs ps zs \<longleftrightarrow>
     results s' = results s @ rs \<and>
     probes_of (trace s') = probes_of (trace s) @ ps \<and>
     sleeps_of (trace s') = sleeps_of (trace s) @ zs \<and>
     outputs_of (trace s') = outputs_of (trace s) \<and>
     failures_of (trace s') = failures_of (trace s) \<and>
     clock s' = clock s + length ps"

text \<open>
  The number of probes a report stands for under the budget \<open>maxRetries\<close>: the
  recorded attempts of a healthy report, the whole budget for an unhealthy one.
\<close>

fun attempts_of :: "int \<Rightarrow> report \<Rightarrow> int" where
  "attempts_of maxRetries (Healthy _ attempts) = attempts"
| "attempts_of maxRetries (Unhealthy _ _) = maxRetries"

text \<open>The probes and the delays that a list of reports accounts for.\<close>

definition probes_for :: "int \<Rightarrow> report list \<Rightarrow> string list" where
  "probes_for maxRetries rs =
     concat (map (\<lambda>r. replicate (nat (attempts_of maxRetries r)) (trim (endpoint_of r))) rs)"

definition sleeps_for :: "int \<Rightarrow> int \<Rightarrow> report list \<Rightarrow> int list" where
  "sleeps_for maxRetries retryDelay rs =
     concat (map (\<lambda>r. replicate (nat (attempts_of maxRetries r - 1)) (retryDelay * 1000)) rs)"

text \<open>
  \<open>n\<close> requests to the endpoint that follows the reported ones, if there is
  one: the probes of an endpoint whose loop has not ended.
\<close>

definition pending_block :: "nat \<Rightarrow> report list \<Rightarrow> string list \<Rightarrow> string list" where
  "pending_block n rs endpoints =
     concat (map (\<lambda>e. replicate n (trim e)) (take 1 (drop (length rs) endpoints)))"

text \<open>
  What the loop over the endpoints leaves behind: reports for a prefix of the
  endpoints, all healthy but possibly the last, the probes and delays these
  reports account for and, when a probe stays pending, the \<open>n\<close> probes of the
  endpoint that has no report yet.
\<close>

definition accounted ::
  "int \<Rightarrow> int \<Rightarrow> string list \<Rightarrow> completion \<Rightarrow> state \<Rightarrow> state \<Rightarrow> report list \<Rightarrow> nat \<Rightarrow> bool" where
  "accounted M D eps c s s' rs n \<longleftrightarrow>
     grows s s' rs (probes_for M rs @ pending_block n rs eps)
       (sleeps_for M D rs @ replicate (n - 1) (D * 1000)) \<and>
     map endpoint_of rs = take (length rs) eps \<and>
     (\<forall>r\<in>set rs. 1 \<le> attempts_of M r \<and> attempts_of M r \<le> M) \<and>
     (\<forall>r\<in>set (butlast rs). status_of r = ''healthy'') \<and>
     (case c of
        Normal \<Rightarrow> n = 0 \<and> (\<forall>r\<in>set rs. status_of r = ''healthy'')
          \<and> (1 \<le> M \<longrightarrow> length rs = length eps)
      | Throw m \<Rightarrow> n = 0 \<and> rs \<noteq> [] \<and> status_of (last rs) = ''unhealthy''
          \<and> m = ''Failed to verify endpoint '' @ endpoint_of (last rs) @ '' after '' @ show_int M
                  @ '' attempts: '' @ (case last rs of Unhealthy _ msg \<Rightarrow> msg | _ \<Rightarrow> [])
      | Hang \<Rightarrow> 1 \<le> n \<and> int n \<le> M \<and> length rs < length eps
          \<and> (\<forall>r\<in>set rs. status_of r = ''healthy''))"

text \<open>
  An endpoint exhausts its budget when, from the \<open>i\<close>-th request of the run
  on, each of the \<open>maxRetries\<close> probes of it is rejected.
\<close>

definition exhausts :: "network \<Rightarrow> int \<Rightarrow> nat \<Rightarrow> string \<Rightarrow> bool" where
  "exhausts net maxRetries i endpoint \<longleftrightarrow>
     1 \<le> maxRetries \<and>
     (\<forall>j<nat maxRetries. is_Rejected (settle (net (i + j) (trim endpoint) 5000)))"

subsection \<open>Inputs and networks for examples\<close>

text \<open>
  The toolkit's \<^verbatim>\<open>core.getInput\<close> over four given input values: the value
  is trimmed, and a required input that is empty throws.
\<close>

definition inputs_with :: "string \<Rightarrow> string \<Rightarrow> string \<Rightarrow> string \<Rightarrow> get_input" where
  "inputs_with environment endpoints max_retries retry_delay name required =
     (let v = (if name = ''environment'' then environment
               else if name = ''endpoints'' then endpoints
               else if name = ''max-retries'' then max_retries
               else if name = ''retry-delay'' then retry_delay
               else [])
      in if required \<and> v = [] then Inl (''Input required and not supplied: '' @ name)
         else Inr (trim v))"

text \<open>
  A network that answers the requests of a run from a list, in order, and
  every later request with a fixed event.
\<close>

definition script :: "probe_event list \<Rightarrow> probe_event \<Rightarrow> network" where
  "script evs ev i url timeout = (if i < length evs then evs ! i else ev)"

subsection \<open>How the steps and the loops change the state\<close>

lemma emit_simps [simp]:
  "results (emit e s) = results s"
  "trace (emit e s) = trace s @ [e]"
  "clock (emit e s) = clock s"
  by (simp_all add: emit_def)

lemma push_simps [simp]:
  "results (push r s) = results s @ [r]"
  "trace (push r s) = trace s"
  "clock (push r s) = clock s"
  by (simp_all add: push_def)

lemma probes_of_simps [simp]:
  "probes_of [] = []"
  "probes_of (tr @ tr') = probes_of tr @ probes_of tr'"
  "probes_of (e # tr) = probe_of e @ probes_of tr"
  by (simp_all add: probes_of_def)

lemma sleeps_of_simps [simp]:
  "sleeps_of [] = []"
  "sleeps_of (tr @ tr') = sleeps_of tr @ sleeps_of tr'"
  "sleeps_of (e # tr) = sleep_of e @ sleeps_of tr"
  by (simp_all add: sleeps_of_def)

lemma outputs_of_simps [simp]:
  "outputs_of [] = []"
  "outputs_of (tr @ tr') = outputs_of tr @ outputs_of tr'"
  "outputs_of (e # tr) = output_of e @ outputs_of tr"
  by (simp_all add: outputs_of_def)

lemma failures_of_simps [simp]:
  "failures_of [] = []"
  "failures_of (tr @ tr') = failures_of tr @ failures_of tr'"
  "failures_of (e # tr) = failure_of e @ failures_of tr"
  by (simp_all add: failures_of_def)

lemma grows_refl: "grows s s [] [] []"
  by (simp add: grows_def)

lemma grows_trans:
  "grows s s' rs ps zs \<Longrightarrow> grows s' s'' rs' ps' zs' \<Longrightarrow> grows s s'' (rs @ rs') (ps @ ps') (zs @ zs')"
  by (simp add: grows_def)

lemma checkEndpoint_fst: "fst (checkEndpoint net url t s) = settle (net (clock s) url t)"
  by (simp add: checkEndpoint_def Let_def)

lemma checkEndpoint_grows: "grows s (snd (checkEndpoint net url t s)) [] [url] []"
  by (simp add: checkEndpoint_def Let_def grows_def)

text \<open>The four ways through the body of the loop.\<close>

lemma loop_body_success:
  assumes "settle (net (clock s) (trim e) 5000) = Resolved c d"
  shows "\<exists>s'. loop_body net M D e (k, ok, s) = (Normal, k, True, s')
              \<and> grows s s' [Healthy e (k + 1)] [trim e] []"
proof -
  obtain x s2 where c: "checkEndpoint net (trim e) 5000 (emit (Info (Checking_endpoint e (k + 1) M)) s) = (x, s2)"
    by fastforce
  from c assms have x: "x = Resolved c d"
    using checkEndpoint_fst [of net "trim e" 5000 "emit (Info (Checking_endpoint e (k + 1) M)) s"] by simp
  from c have g: "grows (emit (Info (Checking_endpoint e (k + 1) M)) s) s2 [] [trim e] []"
    using checkEndpoint_grows [of "emit (Info (Checking_endpoint e (k + 1) M)) s" net "trim e" 5000] by simp
  from c x g show ?thesis
    by (simp add: loop_body_def Let_def grows_def)
qed

lemma loop_body_exhausted:
  assumes "settle (net (clock s) (trim e) 5000) = Rejected m" and "k + 1 = M"
  shows "\<exists>s'. loop_body net M D e (k, ok, s)
                = (Throw (''Failed to verify endpoint '' @ e @ '' after ''
                          @ show_int M @ '' attempts: '' @ m), M, ok, s')
              \<and> grows s s' [Unhealthy e m] [trim e] []"
proof -
  obtain x s2 where c: "checkEndpoint net (trim e) 5000 (emit (Info (Checking_endpoint e (k + 1) M)) s) = (x, s2)"
    by fastforce
  from c assms have x: "x = Rejected m"
    using checkEndpoint_fst [of net "trim e" 5000 "emit (Info (Checking_endpoint e (k + 1) M)) s"] by simp
  from c have g: "grows (emit (Info (Checking_endpoint e (k + 1) M)) s) s2 [] [trim e] []"
    using checkEndpoint_grows [of "emit (Info (Checking_endpoint e (k + 1) M)) s" net "trim e" 5000] by simp
  from c x g assms(2) show ?thesis
    by (simp add: loop_body_def Let_def grows_def)
qed

lemma loop_body_retry:
  assumes "settle (net (clock s) (trim e) 5000) = Rejected m" and "k + 1 \<noteq> M"
  shows "\<exists>s'. loop_body net M D e (k, ok, s) = (Normal, k + 1, ok, s')
              \<and> grows s s' [] [trim e] [D * 1000]"
proof -
  obtain x s2 where c: "checkEndpoint net (trim e) 5000 (emit (Info (Checking_endpoint e (k + 1) M)) s) = (x, s2)"
    by fastforce
  from c assms have x: "x = Rejected m"
    using checkEndpoint_fst [of net "trim e" 5000 "emit (Info (Checking_endpoint e (k + 1) M)) s"] by simp
  from c have g: "grows (emit (Info (Checking_endpoint e (k + 1) M)) s) s2 [] [trim e] []"
    using checkEndpoint_grows [of "emit (Info (Checking_endpoint e (k + 1) M)) s" net "trim e" 5000] by simp
  from c x g assms(2) show ?thesis
    by (simp add: loop_body_def Let_def grows_def)
qed

lemma loop_body_pending:
  assumes "settle (net (clock s) (trim e) 5000) = Pending"
  shows "\<exists>s'. loop_body net M D e (k, ok, s) = (Hang, k, ok, s')
              \<and> grows s s' [] [trim e] []"
proof -
  obtain x s2 where c: "checkEndpoint net (trim e) 5000 (emit (Info (Checking_endpoint e (k + 1) M)) s) = (x, s2)"
    by fastforce
  from c assms have x: "x = Pending"
    using checkEndpoint_fst [of net "trim e" 5000 "emit (Info (Checking_endpoint e (k + 1) M)) s"] by simp
  from c have g: "grows (emit (Info (Checking_endpoint e (k + 1) M)) s) s2 [] [trim e] []"
    using checkEndpoint_grows [of "emit (Info (Checking_endpoint e (k + 1) M)) s" net "trim e" 5000] by simp
  from c x g show ?thesis
    by (simp add: loop_body_def Let_def grows_def)
qed

lemma while_loop_skip:
  "\<not> (k < M \<and> \<not> ok) \<Longrightarrow> while_loop net M D e (k, ok, s) = (Normal, k, ok, s)"
  by (subst while_loop.simps) auto

text \<open>
  After \<open>n\<close> rejected probes, within the budget, the loop is where it
  started, \<open>n\<close> requests and \<open>n\<close> delays later.
\<close>

lemma while_loop_rejections:
  assumes "\<forall>j<n. is_Rejected (settle (net (clock s + j) (trim e) 5000))"
    and "k + int n < M"
  shows "\<exists>s1. while_loop net M D e (k, False, s) = while_loop net M D e (k + int n, False, s1)
              \<and> grows s s1 [] (replicate n (trim e)) (replicate n (D * 1000))
              \<and> clock s1 = clock s + n"
  using assms
proof (induction n arbitrary: k s)
  case 0
  have "grows s s [] [] []" by (rule grows_refl)
  then show ?case by auto
next
  case (Suc n)
  from Suc.prems(1) have "is_Rejected (settle (net (clock s + 0) (trim e) 5000))"
    by blast
  then obtain m where m: "settle (net (clock s) (trim e) 5000) = Rejected m"
    by (auto simp: is_Rejected_def)
  from Suc.prems(2) have ne: "k + 1 \<noteq> M" and lt: "k < M" by simp_all
  from m ne obtain s0 where b: "loop_body net M D e (k, False, s) = (Normal, k + 1, False, s0)"
    and g: "grows s s0 [] [trim e] [D * 1000]"
    using loop_body_retry [of net s e m k M D False] by auto
  from g have c0: "clock s0 = Suc (clock s)" by (simp add: grows_def)
  have "\<forall>j<n. is_Rejected (settle (net (clock s0 + j) (trim e) 5000))"
    using Suc.prems(1) c0 by auto
  moreover have "(k + 1) + int n < M" using Suc.prems(2) by simp
  ultimately obtain s1 where w: "while_loop net M D e (k + 1, False, s0)
        = while_loop net M D e (k + 1 + int n, False, s1)"
    and g': "grows s0 s1 [] (replicate n (trim e)) (replicate n (D * 1000))"
    and c1: "clock s1 = clock s0 + n"
    using Suc.IH [of s0 "k + 1"] by blast
  from lt b w have "while_loop net M D e (k, False, s) = while_loop net M D e (k + int (Suc n), False, s1)"
    by (simp add: while_loop.simps [of net M D e k False s] add.commute add.left_commute)
  moreover from grows_trans [OF g g'] have "grows s s1 [] (replicate (Suc n) (trim e)) (replicate (Suc n) (D * 1000))"
    by simp
  moreover from c0 c1 have "clock s1 = clock s + Suc n" by simp
  ultimately show ?case by blast
qed

text \<open>The probe is resolved after \<open>n\<close> rejections, within the budget.\<close>

lemma while_loop_success:
  assumes "\<forall>j<n. is_Rejected (settle (net (clock s + j) (trim e) 5000))"
    and "is_Resolved (settle (net (clock s + n) (trim e) 5000))"
    and "k + int n < M"
  shows "\<exists>s'. while_loop net M D e (k, False, s) = (Normal, k + int n, True, s')
              \<and> grows s s' [Healthy e (k + int n + 1)]
                   (replicate (Suc n) (trim e)) (replicate n (D * 1000))"
proof -
  from assms(1,3) obtain s1 where w: "while_loop net M D e (k, False, s)
        = while_loop net M D e (k + int n, False, s1)"
    and g: "grows s s1 [] (replicate n (trim e)) (replicate n (D * 1000))"
    and c1: "clock s1 = clock s + n"
    using while_loop_rejections [of n net s e k M D] by blast
  from assms(2) c1 obtain c d where "settle (net (clock s1) (trim e) 5000) = Resolved c d"
    by (auto simp: is_Resolved_def)
  then obtain s' where b: "loop_body net M D e (k + int n, False, s1) = (Normal, k + int n, True, s')"
    and g': "grows s1 s' [Healthy e (k + int n + 1)] [trim e] []"
    using loop_body_success [of net s1 e c d M D "k + int n" False] by auto
  from assms(3) b have "while_loop net M D e (k + int n, False, s1) = (Normal, k + int n, True, s')"
    by (simp add: while_loop.simps [of net M D e "k + int n" False s1] while_loop_skip)
  moreover from grows_trans [OF g g'] have "grows s s' [Healthy e (k + int n + 1)]
      (replicate (Suc n) (trim e)) (replicate n (D * 1000))"
    by (simp add: replicate_append_same)
  ultimately show ?thesis using w by simp
qed

text \<open>The probe stays pending after \<open>n\<close> rejections, within the budget.\<close>

lemma while_loop_pending:
  assumes "\<forall>j<n. is_Rejected (settle (net (clock s + j) (trim e) 5000))"
    and "settle (net (clock s + n) (trim e) 5000) = Pending"
    and "k + int n < M"
  shows "\<exists>s'. while_loop net M D e (k, False, s) = (Hang, k + int n, False, s')
              \<and> grows s s' [] (replicate (Suc n) (trim e)) (replicate n (D * 1000))"
proof -
  from assms(1,3) obtain s1 where w: "while_loop net M D e (k, False, s)
        = while_loop net M D e (k + int n, False, s1)"
    and g: "grows s s1 [] (replicate n (trim e)) (replicate n (D * 1000))"
    and c1: "clock s1 = clock s + n"
    using while_loop_rejections [of n net s e k M D] by blast
  from assms(2) c1 have "settle (net (clock s1) (trim e) 5000) = Pending"
    by simp
  then obtain s' where b: "loop_body net M D e (k + int n, False, s1) = (Hang, k + int n, False, s')"
    and g': "grows s1 s' [] [trim e] []"
    using loop_body_pending [of net s1 e M D "k + int n" False] by auto
  from assms(3) b have "while_loop net M D e (k + int n, False, s1) = (Hang, k + int n, False, s')"
    by (simp add: while_loop.simps [of net M D e "k + int n" False s1])
  moreover from grows_trans [OF g g'] have "grows s s' []
      (replicate (Suc n) (trim e)) (replicate n (D * 1000))"
    by (simp add: replicate_append_same)
  ultimately show ?thesis using w by simp
qed

text \<open>Every probe of the budget is rejected.\<close>

lemma while_loop_exhausted:
  assumes "\<forall>j\<le>n. is_Rejected (settle (net (clock s + j) (trim e) 5000))"
    and "k + int n + 1 = M"
  shows "\<exists>s'. while_loop net M D e (k, False, s)
                = (Throw (''Failed to verify endpoint '' @ e @ '' after '' @ show_int M
                          @ '' attempts: '' @ message_of (settle (net (clock s + n) (trim e) 5000))),
                   M, False, s')
              \<and> grows s s' [Unhealthy e (message_of (settle (net (clock s + n) (trim e) 5000)))]
                   (replicate (Suc n) (trim e)) (replicate n (D * 1000))"
proof -
  let ?m = "message_of (settle (net (clock s + n) (trim e) 5000))"
  from assms have "\<forall>j<n. is_Rejected (settle (net (clock s + j) (trim e) 5000))"
    and "k + int n < M" by simp_all
  then obtain s1 where w: "while_loop net M D e (k, False, s)
        = while_loop net M D e (k + int n, False, s1)"
    and g: "grows s s1 [] (replicate n (trim e)) (replicate n (D * 1000))"
    and c1: "clock s1 = clock s + n"
    using while_loop_rejections [of n net s e k M D] by blast
  from assms(1) have "is_Rejected (settle (net (clock s + n) (trim e) 5000))" by blast
  with c1 have "settle (net (clock s1) (trim e) 5000) = Rejected ?m"
    by (auto simp: is_Rejected_def)
  with assms(2) obtain s' where b: "loop_body net M D e (k + int n, False, s1)
        = (Throw (''Failed to verify endpoint '' @ e @ '' after '' @ show_int M @ '' attempts: '' @ ?m),
           M, False, s')"
    and g': "grows s1 s' [Unhealthy e ?m] [trim e] []"
    using loop_body_exhausted [of net s1 e ?m "k + int n" M D False] by auto
  from assms(2) b have "while_loop net M D e (k + int n, False, s1)
      = (Throw (''Failed to verify endpoint '' @ e @ '' after '' @ show_int M @ '' attempts: '' @ ?m),
         M, False, s')"
    by (simp add: while_loop.simps [of net M D e "k + int n" False s1])
  moreover from grows_trans [OF g g'] have "grows s s' [Unhealthy e ?m]
      (replicate (Suc n) (trim e)) (replicate n (D * 1000))"
    by (simp add: replicate_append_same)
  ultimately show ?thesis using w by simp
qed

text \<open>From a state where the loop is entered, one of the three happens.\<close>

lemma while_loop_cases:
  assumes "k < M"
  obtains (success) n s' where "k + int n < M"
      and "\<forall>j<n. is_Rejected (settle (net (clock s + j) (trim e) 5000))"
      and "is_Resolved (settle (net (clock s + n) (trim e) 5000))"
      and "while_loop net M D e (k, False, s) = (Normal, k + int n, True, s')"
      and "grows s s' [Healthy e (k + int n + 1)] (replicate (Suc n) (trim e)) (replicate n (D * 1000))"
    | (exhausted) n s' where "k + int n + 1 = M"
      and "\<forall>j\<le>n. is_Rejected (settle (net (clock s + j) (trim e) 5000))"
      and "while_loop net M D e (k, False, s)
                = (Throw (''Failed to verify endpoint '' @ e @ '' after '' @ show_int M
                          @ '' attempts: '' @ message_of (settle (net (clock s + n) (trim e) 5000))),
                   M, False, s')"
      and "grows s s' [Unhealthy e (message_of (settle (net (clock s + n) (trim e) 5000)))]
                   (replicate (Suc n) (trim e)) (replicate n (D * 1000))"
    | (pending) n s' where "k + int n < M"
      and "\<forall>j<n. is_Rejected (settle (net (clock s + j) (trim e) 5000))"
      and "settle (net (clock s + n) (trim e) 5000) = Pending"
      and "while_loop net M D e (k, False, s) = (Hang, k + int n, False, s')"
      and "grows s s' [] (replicate (Suc n) (trim e)) (replicate n (D * 1000))"
proof (cases "\<exists>j. int j < M - k \<and> \<not> is_Rejected (settle (net (clock s + j) (trim e) 5000))")
  case True
  define n where "n = (LEAST j. int j < M - k \<and> \<not> is_Rejected (settle (net (clock s + j) (trim e) 5000)))"
  from True have n: "int n < M - k \<and> \<not> is_Rejected (settle (net (clock s + n) (trim e) 5000))"
    unfolding n_def by (rule LeastI_ex)
  have least: "\<forall>j<n. is_Rejected (settle (net (clock s + j) (trim e) 5000))"
  proof (intro allI impI)
    fix j assume "j < n"
    then have "\<not> (int j < M - k \<and> \<not> is_Rejected (settle (net (clock s + j) (trim e) 5000)))"
      unfolding n_def by (rule not_less_Least)
    moreover from \<open>j < n\<close> n have "int j < M - k" by simp
    ultimately show "is_Rejected (settle (net (clock s + j) (trim e) 5000))" by simp
  qed
  from n have b: "k + int n < M" by simp
  show ?thesis
  proof (cases "settle (net (clock s + n) (trim e) 5000)")
    case (Resolved c d)
    then have r: "is_Resolved (settle (net (clock s + n) (trim e) 5000))" by simp
    from least r b obtain s' where "while_loop net M D e (k, False, s) = (Normal, k + int n, True, s')"
      and "grows s s' [Healthy e (k + int n + 1)] (replicate (Suc n) (trim e)) (replicate n (D * 1000))"
      using while_loop_success [where net = net and s = s and e = e and n = n
          and k = k and M = M and D = D] by blast
    with b least r show ?thesis by (rule success)
  next
    case (Rejected m)
    with n show ?thesis by simp
  next
    case Pending
    with least b obtain s' where "while_loop net M D e (k, False, s) = (Hang, k + int n, False, s')"
      and "grows s s' [] (replicate (Suc n) (trim e)) (replicate n (D * 1000))"
      using while_loop_pending [where net = net and s = s and e = e and n = n
          and k = k and M = M and D = D] by blast
    with b least Pending show ?thesis by (rule pending)
  qed
next
  case False
  define n where "n = nat (M - k - 1)"
  from assms have b: "k + int n + 1 = M" by (simp add: n_def)
  have all: "\<forall>j\<le>n. is_Rejected (settle (net (clock s + j) (trim e) 5000))"
  proof (intro allI impI)
    fix j assume "j \<le> n"
    with b have "int j < M - k" by simp
    with False show "is_Rejected (settle (net (clock s + j) (trim e) 5000))" by blast
  qed
  from all b obtain s' where "while_loop net M D e (k, False, s)
                = (Throw (''Failed to verify endpoint '' @ e @ '' after '' @ show_int M
                          @ '' attempts: '' @ message_of (settle (net (clock s + n) (trim e) 5000))),
                   M, False, s')"
    and "grows s s' [Unhealthy e (message_of (settle (net (clock s + n) (trim e) 5000)))]
                   (replicate (Suc n) (trim e)) (replicate n (D * 1000))"
    using while_loop_exhausted [where net = net and s = s and e = e and n = n
        and k = k and M = M and D = D] by blast
  with b all show ?thesis by (rule exhausted)
qed

lemma status_healthy [simp]: "status_of r = ''healthy'' \<longleftrightarrow> (\<exists>e a. r = Healthy e a)"
  by (cases r) auto

lemma status_unhealthy [simp]: "status_of r = ''unhealthy'' \<longleftrightarrow> (\<exists>e m. r = Unhealthy e m)"
  by (cases r) auto

lemma probes_for_simps [simp]:
  "probes_for M [] = []"
  "probes_for M (r # rs) = replicate (nat (attempts_of M r)) (trim (endpoint_of r)) @ probes_for M rs"
  "probes_for M (rs @ rs') = probes_for M rs @ probes_for M rs'"
  by (simp_all add: probes_for_def)

lemma sleeps_for_simps [simp]:
  "sleeps_for M D [] = []"
  "sleeps_for M D (r # rs) = replicate (nat (attempts_of M r - 1)) (D * 1000) @ sleeps_for M D rs"
  "sleeps_for M D (rs @ rs') = sleeps_for M D rs @ sleeps_for M D rs'"
  by (simp_all add: sleeps_for_def)

lemma pending_block_simps [simp]:
  "pending_block 0 rs eps = []"
  "pending_block n [] (e # eps) = replicate n (trim e)"
  "pending_block n (r # rs) (e # eps) = pending_block n rs eps"
  "pending_block n rs [] = []"
  by (simp_all add: pending_block_def)

lemma pending_block_nth:
  "length rs < length eps \<Longrightarrow> pending_block n rs eps = replicate n (trim (eps ! length rs))"
  by (cases "drop (length rs) eps") (auto simp: pending_block_def dest: arg_cong [where f = hd] simp: hd_drop_conv_nth)

lemma for_loop_accounted:
  "\<exists>c s' rs n. for_loop net M D eps s = (c, s') \<and> accounted M D eps c s s' rs n"
proof (induction eps arbitrary: s)
  case Nil
  have "accounted M D [] Normal s s [] 0"
    by (simp add: accounted_def grows_def)
  then show ?case by auto
next
  case (Cons e rest)
  show ?case
  proof (cases "0 < M")
    case False
    then have w: "while_loop net M D e (0, False, s) = (Normal, 0, False, s)"
      by (simp add: while_loop_skip)
    from Cons.IH [of s] obtain c s' rs n where f: "for_loop net M D rest s = (c, s')"
      and a: "accounted M D rest c s s' rs n" by blast
    from a False have rs: "rs = []"
      by (cases rs) (auto simp: accounted_def)
    with a False have c: "c = Normal" and n: "n = 0"
      by (cases c; simp add: accounted_def)+
    from a rs c n False have "accounted M D (e # rest) c s s' rs n"
      by (simp add: accounted_def)
    with w f show ?thesis by auto
  next
    case True
    then show ?thesis
    proof (cases rule: while_loop_cases [of 0 M net s e D])
      case (success k s1)
      let ?h = "Healthy e (int k + 1)"
      from Cons.IH [of s1] obtain c s' rs n where f: "for_loop net M D rest s1 = (c, s')"
        and a: "accounted M D rest c s1 s' rs n" by blast
      from success(4) f have f': "for_loop net M D (e # rest) s = (c, s')" by simp
      from success(5) a have g: "grows s s' (?h # rs)
            (probes_for M (?h # rs) @ pending_block n (?h # rs) (e # rest))
            (sleeps_for M D (?h # rs) @ replicate (n - 1) (D * 1000))"
        using grows_trans [of s s1 "[?h]" "replicate (Suc k) (trim e)"
            "replicate k (D * 1000)" s' rs "probes_for M rs @ pending_block n rs rest"
            "sleeps_for M D rs @ replicate (n - 1) (D * 1000)"]
        by (simp add: accounted_def nat_add_distrib)
      from a have p: "map endpoint_of (?h # rs) = take (length (?h # rs)) (e # rest)"
        by (simp add: accounted_def)
      from a success(1) have b: "\<forall>r\<in>set (?h # rs). 1 \<le> attempts_of M r \<and> attempts_of M r \<le> M"
        by (simp add: accounted_def)
      from a have h: "\<forall>r\<in>set (butlast (?h # rs)). status_of r = ''healthy''"
        by (simp add: accounted_def)
      from a have l: "(case c of
            Normal \<Rightarrow> n = 0 \<and> (\<forall>r\<in>set (?h # rs). status_of r = ''healthy'')
                    \<and> (1 \<le> M \<longrightarrow> length (?h # rs) = length (e # rest))
          | Throw m \<Rightarrow> n = 0 \<and> ?h # rs \<noteq> [] \<and> status_of (last (?h # rs)) = ''unhealthy''
              \<and> m = ''Failed to verify endpoint '' @ endpoint_of (last (?h # rs)) @ '' after '' @ show_int M
                  @ '' attempts: '' @ (case last (?h # rs) of Unhealthy _ msg \<Rightarrow> msg | _ \<Rightarrow> [])
          | Hang \<Rightarrow> 1 \<le> n \<and> int n \<le> M \<and> length (?h # rs) < length (e # rest)
              \<and> (\<forall>r\<in>set (?h # rs). status_of r = ''healthy''))"
        by (cases c) (auto simp: accounted_def)
      from g p b h l have "accounted M D (e # rest) c s s' (?h # rs) n"
        unfolding accounted_def by blast
      with f' show ?thesis by blast
    next
      case (exhausted k s1)
      let ?m = "message_of (settle (net (clock s + k) (trim e) 5000))"
      from exhausted(3) have f': "for_loop net M D (e # rest) s
          = (Throw (''Failed to verify endpoint '' @ e @ '' after '' @ show_int M @ '' attempts: '' @ ?m), s1)"
        by simp
      from exhausted(1) have n: "nat M = Suc k" "nat (M - 1) = k" by auto
      from exhausted(4) n have "accounted M D (e # rest)
          (Throw (''Failed to verify endpoint '' @ e @ '' after '' @ show_int M @ '' attempts: '' @ ?m))
          s s1 [Unhealthy e ?m] 0"
        using exhausted(1) by (simp add: accounted_def)
      with f' show ?thesis by blast
    next
      case (pending k s1)
      from pending(4) have f': "for_loop net M D (e # rest) s = (Hang, s1)" by simp
      from pending(5) pending(1) have "accounted M D (e # rest) Hang s s1 [] (Suc k)"
        by (simp add: accounted_def)
      with f' show ?thesis by blast
    qed
  qed
qed

lemma for_loop_append:
  "for_loop net M D (pre @ post) s =
     (case for_loop net M D pre s of
        (Normal, s1) \<Rightarrow> for_loop net M D post s1
      | (Throw m, s1) \<Rightarrow> (Throw m, s1)
      | (Hang, s1) \<Rightarrow> (Hang, s1))"
  by (induction pre arbitrary: s) (auto split: prod.splits completion.splits)

lemma started_simps [simp]:
  "results (started env eps) = []"
  "probes_of (trace (started env eps)) = []"
  "sleeps_of (trace (started env eps)) = []"
  "outputs_of (trace (started env eps)) = []"
  "failures_of (trace (started env eps)) = []"
  "clock (started env eps) = 0"
  by (simp_all add: started_def)

text \<open>The three ways a run ends, or stops, once its inputs are read.\<close>

lemma run_cases:
  assumes "get_inputs getInput = Inr (env, eps, M, D)"
  obtains (completed) s' where "for_loop net M D eps (started env eps) = (Normal, s')"
      and "run getInput net now =
             emit (SetOutput ''results'' (Json (results s')))
               (emit (SetOutput ''timestamp'' (Str now))
                 (emit (SetOutput ''status'' (Str ''success'')) s'))"
      and "accounted M D eps Normal (started env eps) s' (results s') 0"
    | (failed) m s' where "for_loop net M D eps (started env eps) = (Throw m, s')"
      and "run getInput net now = emit (SetFailed (''Deployment check failed: '' @ m)) s'"
      and "accounted M D eps (Throw m) (started env eps) s' (results s') 0"
    | (hung) s' n where "for_loop net M D eps (started env eps) = (Hang, s')"
      and "run getInput net now = s'"
      and "accounted M D eps Hang (started env eps) s' (results s') n"
proof -
  obtain c s' rs n where f: "for_loop net M D eps (started env eps) = (c, s')"
    and a: "accounted M D eps c (started env eps) s' rs n"
    using for_loop_accounted [of net M D eps "started env eps"] by blast
  from a have rs: "rs = results s'" by (simp add: accounted_def grows_def)
  show ?thesis
  proof (cases c)
    case Normal
    with f assms have "run getInput net now =
             emit (SetOutput ''results'' (Json (results s')))
               (emit (SetOutput ''timestamp'' (Str now))
                 (emit (SetOutput ''status'' (Str ''success'')) s'))"
      by (simp add: run_def run_body_def)
    moreover from a Normal have "n = 0" by (simp add: accounted_def)
    ultimately show ?thesis using f a rs Normal completed by blast
  next
    case (Throw m)
    with f assms have "run getInput net now = emit (SetFailed (''Deployment check failed: '' @ m)) s'"
      by (simp add: run_def run_body_def)
    moreover from a Throw have "n = 0" by (simp add: accounted_def)
    ultimately show ?thesis using f a rs Throw failed by blast
  next
    case Hang
    with f assms have "run getInput net now = s'"
      by (simp add: run_def run_body_def)
    with f a rs Hang show ?thesis using hung by blast
  qed
qed

lemma run_results_of_loop:
  assumes "get_inputs getInput = Inr (env, eps, M, D)"
    and "for_loop net M D eps (started env eps) = (c, s')"
  shows "results (run getInput net now) = results s'"
  using assms by (cases c) (simp_all add: run_def run_body_def)

text \<open>
  What a run has done, read off its final state: the requests are those its
  reports account for, followed by the requests of a probe that stays
  pending, if there is one; then no output is set and the run is not marked
  as failed.
\<close>

lemma run_accounted:
  assumes "get_inputs getInput = Inr (env, eps, M, D)"
  shows "\<exists>n. probes_of (trace (run getInput net now))
             = probes_for M (results (run getInput net now))
               @ pending_block n (results (run getInput net now)) eps
          \<and> sleeps_of (trace (run getInput net now))
             = sleeps_for M D (results (run getInput net now)) @ replicate (n - 1) (D * 1000)
          \<and> (n = 0 \<or> 1 \<le> n \<and> int n \<le> M
                \<and> length (results (run getInput net now)) < length eps
                \<and> outputs_of (trace (run getInput net now)) = []
                \<and> failures_of (trace (run getInput net now)) = [])"
  using assms
proof (cases rule: run_cases [where net = net and now = now])
  case (completed s')
  from completed(3) have "probes_of (trace s') = probes_for M (results s')"
    and "sleeps_of (trace s') = sleeps_for M D (results s')"
    by (simp_all add: accounted_def grows_def)
  with completed(2) have "probes_of (trace (run getInput net now))
             = probes_for M (results (run getInput net now))
               @ pending_block 0 (results (run getInput net now)) eps
          \<and> sleeps_of (trace (run getInput net now))
             = sleeps_for M D (results (run getInput net now)) @ replicate (0 - 1) (D * 1000)"
    by simp
  then show ?thesis by blast
next
  case (failed m s')
  from failed(3) have "probes_of (trace s') = probes_for M (results s')"
    and "sleeps_of (trace s') = sleeps_for M D (results s')"
    by (simp_all add: accounted_def grows_def)
  with failed(2) have "probes_of (trace (run getInput net now))
             = probes_for M (results (run getInput net now))
               @ pending_block 0 (results (run getInput net now)) eps
          \<and> sleeps_of (trace (run getInput net now))
             = sleeps_for M D (results (run getInput net now)) @ replicate (0 - 1) (D * 1000)"
    by simp
  then show ?thesis by blast
next
  case (hung s' n)
  from hung(3) have "probes_of (trace s') = probes_for M (results s') @ pending_block n (results s') eps"
    and "sleeps_of (trace s') = sleeps_for M D (results s') @ replicate (n - 1) (D * 1000)"
    and "1 \<le> n \<and> int n \<le> M \<and> length (results s') < length eps"
    and "outputs_of (trace s') = []" and "failures_of (trace s') = []"
    by (simp_all add: accounted_def grows_def)
  with hung(2) show ?thesis by auto
qed

text \<open>
  The loop reaches an endpoint that exhausts its budget: it throws there,
  with the unhealthy report pushed and one request for each probe of the
  budget, whatever endpoints follow.
\<close>

lemma for_loop_exhausted:
  assumes "for_loop net M D pre s0 = (Normal, s)"
    and "exhausts net M (clock s) e"
  shows "\<exists>s'. for_loop net M D (pre @ e # post) s0
                = (Throw (''Failed to verify endpoint '' @ e @ '' after '' @ show_int M
                     @ '' attempts: '' @ message_of (settle (net (clock s + (nat M - 1)) (trim e) 5000))), s')
              \<and> grows s s' [Unhealthy e (message_of (settle (net (clock s + (nat M - 1)) (trim e) 5000)))]
                   (replicate (nat M) (trim e)) (replicate (nat M - 1) (D * 1000))"
proof -
  let ?n = "nat M - 1"
  from assms(2) have M: "1 \<le> M"
    and "\<forall>j<nat M. is_Rejected (settle (net (clock s + j) (trim e) 5000))"
    by (simp_all add: exhausts_def)
  then have all: "\<forall>j\<le>?n. is_Rejected (settle (net (clock s + j) (trim e) 5000))"
    by auto
  from M have b: "0 + int ?n + 1 = M" and S: "Suc ?n = nat M" by simp_all
  from all b obtain s' where w: "while_loop net M D e (0, False, s)
        = (Throw (''Failed to verify endpoint '' @ e @ '' after '' @ show_int M
             @ '' attempts: '' @ message_of (settle (net (clock s + ?n) (trim e) 5000))), M, False, s')"
    and g: "grows s s' [Unhealthy e (message_of (settle (net (clock s + ?n) (trim e) 5000)))]
              (replicate (Suc ?n) (trim e)) (replicate ?n (D * 1000))"
    using while_loop_exhausted [where net = net and s = s and e = e and n = ?n
        and k = 0 and M = M and D = D] by blast
  from assms(1) w have "for_loop net M D (pre @ e # post) s0
      = (Throw (''Failed to verify endpoint '' @ e @ '' after '' @ show_int M
           @ '' attempts: '' @ message_of (settle (net (clock s + ?n) (trim e) 5000))), s')"
    by (simp add: for_loop_append)
  with g S show ?thesis by auto
qed

text \<open>A loop that throws has reached an endpoint that exhausts its budget.\<close>

lemma for_loop_Throw:
  assumes "for_loop net M D eps s0 = (Throw m, s')"
  shows "\<exists>pre e post s. eps = pre @ e # post \<and> for_loop net M D pre s0 = (Normal, s)
           \<and> exhausts net M (clock s) e"
  using assms
proof (induction eps arbitrary: s0)
  case Nil
  then show ?case by simp
next
  case (Cons e rest)
  show ?case
  proof (cases "0 < M")
    case False
    then have w: "while_loop net M D e (0, False, s0) = (Normal, 0, False, s0)"
      by (simp add: while_loop_skip)
    with Cons.prems have "for_loop net M D rest s0 = (Throw m, s')" by simp
    from Cons.IH [OF this] False show ?thesis by (auto simp: exhausts_def)
  next
    case True
    then show ?thesis
    proof (cases rule: while_loop_cases [of 0 M net s0 e D])
      case (success k s1)
      with Cons.prems have "for_loop net M D rest s1 = (Throw m, s')" by simp
      from Cons.IH [OF this] obtain pre e' post s where "rest = pre @ e' # post"
        and "for_loop net M D pre s1 = (Normal, s)" and "exhausts net M (clock s) e'"
        by blast
      with success(4) have "e # rest = (e # pre) @ e' # post"
        and "for_loop net M D (e # pre) s0 = (Normal, s)" and "exhausts net M (clock s) e'"
        by simp_all
      then show ?thesis by blast
    next
      case (exhausted k s1)
      from exhausted(1) have "nat M = Suc k" "1 \<le> M" by simp_all
      with exhausted(2) have "exhausts net M (clock s0) e"
        by (simp add: exhausts_def less_Suc_eq_le)
      moreover have "e # rest = [] @ e # rest" "for_loop net M D [] s0 = (Normal, s0)" by simp_all
      ultimately show ?thesis by blast
    next
      case (pending k s1)
      with Cons.prems show ?thesis by simp
    qed
  qed
qed

lemma single_attempt_reports:
  assumes "\<forall>r\<in>set rs. attempts_of M r = 1"
  shows "probes_for M rs = map trim (map endpoint_of rs)" and "sleeps_for M D rs = []"
  using assms by (induction rs) simp_all

text \<open>The loop for one endpoint keeps within its budget, from any values of its variables.\<close>

lemma while_loop_within_budget:
  assumes "k \<le> M" and "while_loop net M D e (k, ok, s) = (c, k', ok', s')"
  shows "k \<le> k' \<and> k' \<le> M
       \<and> int (length (probes_of (trace s'))) - int (length (probes_of (trace s))) \<le> M - k
       \<and> (\<forall>r\<in>set (drop (length (results s)) (results s')). attempts_of M r \<le> M)"
proof (cases "k < M \<and> \<not> ok")
  case False
  with assms show ?thesis by (simp add: while_loop_skip)
next
  case True
  then have "k < M" and ok: "ok = False" by simp_all
  then show ?thesis
  proof (cases rule: while_loop_cases [of k M net s e D])
    case (success n s1)
    from success(4) assms(2) ok have "k' = k + int n" "s' = s1" by simp_all
    with success(1,5) show ?thesis by (simp add: grows_def)
  next
    case (exhausted n s1)
    from exhausted(3) assms(2) ok have "k' = M" "s' = s1" by simp_all
    with exhausted(1,4) show ?thesis by (auto simp: grows_def)
  next
    case (pending n s1)
    from pending(4) assms(2) ok have "k' = k + int n" "s' = s1" by simp_all
    with pending(1,5) show ?thesis by (simp add: grows_def)
  qed
qed

lemma probes_for_subset: "set (probes_for M rs) \<subseteq> trim ` endpoint_of ` set rs"
  by (induction rs) auto

lemma pending_block_subset: "set (pending_block n rs eps) \<subseteq> trim ` set eps"
  by (auto simp: pending_block_def dest!: in_set_takeD in_set_dropD)

text \<open>
  The defaults \<^verbatim>\<open>|| 5\<close> and \<^verbatim>\<open>|| 30\<close> replace a parsed zero as well as a
  missing input: neither the budget nor the delay of a run is ever 0.
\<close>

lemma or_default_nonzero: "d \<noteq> 0 \<Longrightarrow> or_default x d \<noteq> 0"
  by (cases x) auto

lemma inputs_never_zero:
  assumes "get_inputs getInput = Inr (environment, endpoints, maxRetries, retryDelay)"
  shows "maxRetries \<noteq> 0 \<and> retryDelay \<noteq> 0"
  using assms or_default_nonzero [of 5] or_default_nonzero [of 30]
  by (auto simp: get_inputs_def split: sum.splits)

text \<open>How the promise of a probe comes out, event by event.\<close>

lemma checkEndpoint_settlement:
  "is_Resolved (fst (checkEndpoint net url timeout s))
     = (\<exists>statusCode data. net (clock s) url timeout = Response statusCode data
           \<and> 200 \<le> statusCode \<and> statusCode < 300)"
  "is_Rejected (fst (checkEndpoint net url timeout s))
     = ((\<exists>statusCode data. net (clock s) url timeout = Response statusCode data
           \<and> \<not> (200 \<le> statusCode \<and> statusCode < 300))
        \<or> (\<exists>m. net (clock s) url timeout = Errored m)
        \<or> net (clock s) url timeout = Timeout)"
  "(fst (checkEndpoint net url timeout s) = Pending) = (net (clock s) url timeout = Aborted)"
  by (cases "net (clock s) url timeout"; auto simp: checkEndpoint_fst)+

text \<open>After a loop that ended normally nothing is set, and every report is healthy.\<close>

lemma for_loop_Normal_quiet:
  assumes "for_loop net M D pre (started env eps) = (Normal, s)"
  shows "outputs_of (trace s) = []" and "failures_of (trace s) = []"
    and "\<forall>r\<in>set (results s). status_of r = ''healthy''"
    and "1 \<le> M \<Longrightarrow> length (results s) = length pre"
    and "probes_of (trace s) = probes_for M (results s)"
proof -
  obtain c0 s0 rs n where "for_loop net M D pre (started env eps) = (c0, s0)"
    and "accounted M D pre c0 (started env eps) s0 rs n"
    using for_loop_accounted [of net M D pre "started env eps"] by blast
  with assms have a: "accounted M D pre Normal (started env eps) s rs n" by simp
  then have "n = 0" and rs: "rs = results s" by (simp_all add: accounted_def grows_def)
  with a show "outputs_of (trace s) = []" and "failures_of (trace s) = []"
    and "\<forall>r\<in>set (results s). status_of r = ''healthy''"
    and "1 \<le> M \<Longrightarrow> length (results s) = length pre"
    and "probes_of (trace s) = probes_for M (results s)"
    by (simp_all add: accounted_def grows_def)
qed

text \<open>
  A run whose loop reaches an endpoint that exhausts its budget: the
  unhealthy report is the last one, the run is marked as failed, no output
  is set, and the last requests are the probes of that endpoint.
\<close>

lemma run_exhausted:
  assumes "get_inputs getInput = Inr (env, pre @ e # post, M, D)"
    and "for_loop net M D pre (started env (pre @ e # post)) = (Normal, s)"
    and "exhausts net M (clock s) e"
  shows "results (run getInput net now)
           = results s @ [Unhealthy e (message_of (settle (net (clock s + (nat M - 1)) (trim e) 5000)))]
       \<and> status_of (last (results (run getInput net now))) = ''unhealthy''
       \<and> failures_of (trace (run getInput net now))
           = [''Deployment check failed: Failed to verify endpoint '' @ e @ '' after ''
              @ show_int M @ '' attempts: ''
              @ message_of (settle (net (clock s + (nat M - 1)) (trim e) 5000))]
       \<and> outputs_of (trace (run getInput net now)) = []
       \<and> probes_of (trace (run getInput net now)) = probes_of (trace s) @ replicate (nat M) (trim e)
       \<and> length (results s) = length pre
       \<and> (\<forall>r\<in>set (results s). status_of r = ''healthy'')"
proof -
  let ?eps = "pre @ e # post"
  let ?m = "message_of (settle (net (clock s + (nat M - 1)) (trim e) 5000))"
  let ?t = "''Failed to verify endpoint '' @ e @ '' after '' @ show_int M @ '' attempts: '' @ ?m"
  from assms(3) have M: "1 \<le> M" by (simp add: exhausts_def)
  note q = for_loop_Normal_quiet [OF assms(2)]
  from for_loop_exhausted [OF assms(2,3), where post = post]
  obtain s' where f: "for_loop net M D ?eps (started env ?eps) = (Throw ?t, s')"
    and g: "grows s s' [Unhealthy e ?m] (replicate (nat M) (trim e)) (replicate (nat M - 1) (D * 1000))"
    by blast
  from f assms(1) have r: "run getInput net now = emit (SetFailed (''Deployment check failed: '' @ ?t)) s'"
    by (simp add: run_def run_body_def)
  from g q(1,2) have "results s' = results s @ [Unhealthy e ?m]"
    and "outputs_of (trace s') = []" and "failures_of (trace s') = []"
    and "probes_of (trace s') = probes_of (trace s) @ replicate (nat M) (trim e)"
    by (simp_all add: grows_def)
  with r q(3) q(4) [OF M] show ?thesis by simp
qed

lemma healthy_last:
  assumes "\<forall>r\<in>set rs. status_of r = ''healthy''"
  shows "rs \<noteq> [] \<longrightarrow> status_of (last rs) \<noteq> ''unhealthy''"
proof
  assume "rs \<noteq> []"
  then have "last rs \<in> set rs" by simp
  with assms obtain e a where "last rs = Healthy e a" by auto
  then show "status_of (last rs) \<noteq> ''unhealthy''" by simp
qed

subsection \<open>Properties of the probe\<close>

text \<open>
  C4 fails on the code. A response that starts and is cut off before its end
  is a connection error that the probe classifies neither as a success nor
  as a failure: the promise is neither resolved nor rejected, the run stops
  at its first probe, sets no output and is not marked as failed.
\<close>

theorem aborted_response_never_settles:
  "fst (checkEndpoint (script [Aborted] (Response 200 [])) ''https://a.test'' 5000
          \<lparr>results = [], trace = [], clock = 0\<rparr>) = Pending
   \<and> \<not> is_Resolved (fst (checkEndpoint (script [Aborted] (Response 200 [])) ''https://a.test'' 5000
          \<lparr>results = [], trace = [], clock = 0\<rparr>))
   \<and> \<not> is_Rejected (fst (checkEndpoint (script [Aborted] (Response 200 [])) ''https://a.test'' 5000
          \<lparr>results = [], trace = [], clock = 0\<rparr>))
   \<and> probes_of (trace (run (inputs_with ''prod'' ''https://a.test,https://b.test'' ''3'' ''1'')
                         (script [Aborted] (Response 200 [])) ''T'')) = [''https://a.test'']
   \<and> results (run (inputs_with ''prod'' ''https://a.test,https://b.test'' ''3'' ''1'')
                 (script [Aborted] (Response 200 [])) ''T'') = []
   \<and> outputs_of (trace (run (inputs_with ''prod'' ''https://a.test,https://b.test'' ''3'' ''1'')
                          (script [Aborted] (Response 200 [])) ''T'')) = []
   \<and> failures_of (trace (run (inputs_with ''prod'' ''https://a.test,https://b.test'' ''3'' ''1'')
                           (script [Aborted] (Response 200 [])) ''T'')) = []"
  by code_simp

text \<open>
  C8. When the timeout fires, the handler destroys the request and then
  rejects with the message "Request timed out": the state that comes back
  with the rejection holds the request followed by its destruction.
\<close>

theorem timeout_destroys_request:
  assumes "net (clock s) url timeout = Timeout"
  shows "checkEndpoint net url timeout s
         = (Rejected ''Request timed out'',
            s\<lparr>trace := trace s @ [Get url timeout, Destroy url], clock := Suc (clock s)\<rparr>)"
  using assms by (simp add: checkEndpoint_def Let_def emit_def)

theorem timeout_destroys_request_witness:
  "script [Timeout] (Response 200 []) 0 ''https://a.test'' 5000 = Timeout
   \<and> checkEndpoint (script [Timeout] (Response 200 [])) ''https://a.test'' 5000
        \<lparr>results = [], trace = [], clock = 0\<rparr>
      = (Rejected ''Request timed out'',
         \<lparr>results = [], trace = [Get ''https://a.test'' 5000, Destroy ''https://a.test''], clock = 1\<rparr>)"
proof -
  have h: "script [Timeout] (Response 200 []) (clock \<lparr>results = [], trace = [], clock = 0\<rparr>)
             ''https://a.test'' 5000 = Timeout"
    by (simp add: script_def)
  from h timeout_destroys_request [of "script [Timeout] (Response 200 [])"
      "\<lparr>results = [], trace = [], clock = 0\<rparr>" "''https://a.test''" 5000]
  show ?thesis by simp
qed

subsection \<open>Properties of the retry loop and of the run\<close>

text \<open>
  C1, as the code has it. The reports follow the endpoints in request order
  up to and including the first endpoint that exhausts its budget: the run
  is marked as failed exactly when its last report is unhealthy, and then
  the loop reached an endpoint that exhausts its budget, after endpoints that
  did not and that all have healthy reports, and the unhealthy report of that
  endpoint ends the list. Whenever the loop reaches an endpoint that exhausts
  its budget, this is how the run ends. There is one healthy report for each
  of the endpoints whenever the budget is at least 1 and the run sets its
  outputs.
\<close>

theorem reports_follow_endpoints:
  assumes "get_inputs getInput = Inr (environment, endpoints, maxRetries, retryDelay)"
  shows "map endpoint_of (results (run getInput net now))
           = take (length (results (run getInput net now))) endpoints
       \<and> (\<forall>r\<in>set (butlast (results (run getInput net now))). status_of r = ''healthy'')
       \<and> ((failures_of (trace (run getInput net now)) \<noteq> [])
            = (results (run getInput net now) \<noteq> []
               \<and> status_of (last (results (run getInput net now))) = ''unhealthy''))
       \<and> (failures_of (trace (run getInput net now)) \<noteq> [] \<longrightarrow>
            (\<exists>pre endpoint post s.
               endpoints = pre @ endpoint # post
             \<and> for_loop net maxRetries retryDelay pre (started environment endpoints) = (Normal, s)
             \<and> exhausts net maxRetries (clock s) endpoint
             \<and> (\<forall>pre' endpoint' post' s'.
                    pre = pre' @ endpoint' # post'
                  \<and> for_loop net maxRetries retryDelay pre' (started environment endpoints) = (Normal, s')
                  \<longrightarrow> \<not> exhausts net maxRetries (clock s') endpoint')
             \<and> length (results s) = length pre
             \<and> (\<forall>r\<in>set (results s). status_of r = ''healthy'')
             \<and> results (run getInput net now)
                 = results s @ [Unhealthy endpoint
                      (message_of (settle (net (clock s + (nat maxRetries - 1)) (trim endpoint) 5000)))]))
       \<and> (\<forall>pre endpoint post s.
              endpoints = pre @ endpoint # post
            \<and> for_loop net maxRetries retryDelay pre (started environment endpoints) = (Normal, s)
            \<and> exhausts net maxRetries (clock s) endpoint
            \<longrightarrow> failures_of (trace (run getInput net now)) \<noteq> []
              \<and> length (results (run getInput net now)) = Suc (length pre)
              \<and> results (run getInput net now)
                  = results s @ [Unhealthy endpoint
                       (message_of (settle (net (clock s + (nat maxRetries - 1)) (trim endpoint) 5000)))])
       \<and> (1 \<le> maxRetries \<and> outputs_of (trace (run getInput net now)) \<noteq> []
            \<longrightarrow> map endpoint_of (results (run getInput net now)) = endpoints
              \<and> (\<forall>r\<in>set (results (run getInput net now)). status_of r = ''healthy''))"
proof -
  let ?rs = "results (run getInput net now)"
  let ?tr = "trace (run getInput net now)"
  let ?s0 = "started environment endpoints"
  have reach: "failures_of ?tr \<noteq> [] \<and> length ?rs = Suc (length pre)
      \<and> ?rs = results s @ [Unhealthy endpoint
            (message_of (settle (net (clock s + (nat maxRetries - 1)) (trim endpoint) 5000)))]
      \<and> length (results s) = length pre \<and> (\<forall>r\<in>set (results s). status_of r = ''healthy'')"
    if "endpoints = pre @ endpoint # post"
      and "for_loop net maxRetries retryDelay pre ?s0 = (Normal, s)"
      and "exhausts net maxRetries (clock s) endpoint" for pre endpoint post s
  proof -
    from assms that(1) have g: "get_inputs getInput
        = Inr (environment, pre @ endpoint # post, maxRetries, retryDelay)" by simp
    from that(1,2) have f: "for_loop net maxRetries retryDelay pre
        (started environment (pre @ endpoint # post)) = (Normal, s)" by simp
    from run_exhausted [OF g f that(3), of now] show ?thesis by simp
  qed
  have first: "\<not> exhausts net maxRetries (clock s') endpoint'"
    if "for_loop net maxRetries retryDelay (pre' @ endpoint' # post') ?s0 = (Normal, s)"
      and "for_loop net maxRetries retryDelay pre' ?s0 = (Normal, s')" for pre' endpoint' post' s s'
  proof
    assume "exhausts net maxRetries (clock s') endpoint'"
    from for_loop_exhausted [OF that(2) this, where post = post'] that(1)
    show False by auto
  qed
  from assms have main: "map endpoint_of ?rs = take (length ?rs) endpoints
       \<and> (\<forall>r\<in>set (butlast ?rs). status_of r = ''healthy'')
       \<and> ((failures_of ?tr \<noteq> []) = (?rs \<noteq> [] \<and> status_of (last ?rs) = ''unhealthy''))
       \<and> (failures_of ?tr \<noteq> [] \<longrightarrow>
            (\<exists>pre endpoint post s.
               endpoints = pre @ endpoint # post
             \<and> for_loop net maxRetries retryDelay pre ?s0 = (Normal, s)
             \<and> exhausts net maxRetries (clock s) endpoint))
       \<and> (1 \<le> maxRetries \<and> outputs_of ?tr \<noteq> []
            \<longrightarrow> map endpoint_of ?rs = endpoints \<and> (\<forall>r\<in>set ?rs. status_of r = ''healthy''))"
  proof (cases rule: run_cases [where net = net and now = now])
    case (completed s')
    from completed(2) have r: "?rs = results s'" and f: "failures_of ?tr = failures_of (trace s')"
      by simp_all
    from completed(3) have a: "failures_of (trace s') = []"
      "map endpoint_of (results s') = take (length (results s')) endpoints"
      "\<forall>r\<in>set (butlast (results s')). status_of r = ''healthy''"
      "\<forall>r\<in>set (results s'). status_of r = ''healthy''"
      "1 \<le> maxRetries \<longrightarrow> length (results s') = length endpoints"
      by (simp_all add: accounted_def grows_def)
    from a(4) have "results s' \<noteq> [] \<longrightarrow> status_of (last (results s')) \<noteq> ''unhealthy''"
      by (rule healthy_last)
    with a show ?thesis unfolding r f by auto
  next
    case (failed m s')
    from failed(2) have r: "?rs = results s'" and f: "failures_of ?tr \<noteq> []"
      and o: "outputs_of ?tr = outputs_of (trace s')"
      by simp_all
    from failed(3) have a: "outputs_of (trace s') = []"
      "map endpoint_of (results s') = take (length (results s')) endpoints"
      "\<forall>r\<in>set (butlast (results s')). status_of r = ''healthy''"
      "results s' \<noteq> []" "status_of (last (results s')) = ''unhealthy''"
      by (simp_all add: accounted_def grows_def)
    from for_loop_Throw [OF failed(1)] have "\<exists>pre endpoint post s.
               endpoints = pre @ endpoint # post
             \<and> for_loop net maxRetries retryDelay pre ?s0 = (Normal, s)
             \<and> exhausts net maxRetries (clock s) endpoint" .
    with a f show ?thesis unfolding r o by simp
  next
    case (hung s' n)
    from hung(2) have r: "?rs = results s'" and f: "failures_of ?tr = failures_of (trace s')"
      and o: "outputs_of ?tr = outputs_of (trace s')"
      by simp_all
    from hung(3) have a: "failures_of (trace s') = []" "outputs_of (trace s') = []"
      "map endpoint_of (results s') = take (length (results s')) endpoints"
      "\<forall>r\<in>set (butlast (results s')). status_of r = ''healthy''"
      "\<forall>r\<in>set (results s'). status_of r = ''healthy''"
      by (simp_all add: accounted_def grows_def)
    from a(5) have "results s' \<noteq> [] \<longrightarrow> status_of (last (results s')) \<noteq> ''unhealthy''"
      by (rule healthy_last)
    with a show ?thesis unfolding r f o by auto
  qed
  have ex: "\<exists>pre endpoint post s.
               endpoints = pre @ endpoint # post
             \<and> for_loop net maxRetries retryDelay pre ?s0 = (Normal, s)
             \<and> exhausts net maxRetries (clock s) endpoint
             \<and> (\<forall>pre' endpoint' post' s'.
                    pre = pre' @ endpoint' # post'
                  \<and> for_loop net maxRetries retryDelay pre' ?s0 = (Normal, s')
                  \<longrightarrow> \<not> exhausts net maxRetries (clock s') endpoint')
             \<and> length (results s) = length pre
             \<and> (\<forall>r\<in>set (results s). status_of r = ''healthy'')
             \<and> ?rs = results s @ [Unhealthy endpoint
                      (message_of (settle (net (clock s + (nat maxRetries - 1)) (trim endpoint) 5000)))]"
    if "failures_of ?tr \<noteq> []"
  proof -
    from main that obtain pre endpoint post s where d: "endpoints = pre @ endpoint # post"
      and f: "for_loop net maxRetries retryDelay pre ?s0 = (Normal, s)"
      and x: "exhausts net maxRetries (clock s) endpoint"
      by blast
    have "\<forall>pre' endpoint' post' s'.
                    pre = pre' @ endpoint' # post'
                  \<and> for_loop net maxRetries retryDelay pre' ?s0 = (Normal, s')
                  \<longrightarrow> \<not> exhausts net maxRetries (clock s') endpoint'"
      using first f by blast
    with reach [OF d f x] d f x show ?thesis by blast
  qed
  from main ex reach show ?thesis by blast
qed

theorem reports_follow_endpoints_witness:
  "get_inputs (inputs_with ''prod'' ''https://a.test,https://b.test,https://c.test'' ''3'' ''1'')
     = Inr (''prod'', [''https://a.test'', ''https://b.test'', ''https://c.test''], 3, 1)
   \<and> [''https://a.test'', ''https://b.test'', ''https://c.test'']
       = [''https://a.test''] @ ''https://b.test'' # [''https://c.test'']
   \<and> for_loop (script [Response 200 []] (Response 500 [])) 3 1 [''https://a.test'']
        (started ''prod'' [''https://a.test'', ''https://b.test'', ''https://c.test''])
      = (Normal, snd (for_loop (script [Response 200 []] (Response 500 [])) 3 1 [''https://a.test'']
        (started ''prod'' [''https://a.test'', ''https://b.test'', ''https://c.test''])))
   \<and> exhausts (script [Response 200 []] (Response 500 [])) 3
        (clock (snd (for_loop (script [Response 200 []] (Response 500 [])) 3 1 [''https://a.test'']
        (started ''prod'' [''https://a.test'', ''https://b.test'', ''https://c.test''])))) ''https://b.test''
   \<and> failures_of (trace (run (inputs_with ''prod'' ''https://a.test,https://b.test,https://c.test'' ''3'' ''1'')
          (script [Response 200 []] (Response 500 [])) ''T'')) \<noteq> []
   \<and> results (run (inputs_with ''prod'' ''https://a.test,https://b.test,https://c.test'' ''3'' ''1'')
          (script [Response 200 []] (Response 500 [])) ''T'')
      = [Healthy ''https://a.test'' 1, Unhealthy ''https://b.test'' ''HTTP Status: 500'']
   \<and> (1::int) \<le> 3
   \<and> outputs_of (trace (run (inputs_with ''prod'' ''https://a.test,https://b.test,https://c.test'' ''3'' ''1'')
          (script [Response 200 [], Response 500 [], Response 500 []] (Response 200 [])) ''T'')) \<noteq> []
   \<and> map endpoint_of (results (run (inputs_with ''prod'' ''https://a.test,https://b.test,https://c.test'' ''3'' ''1'')
          (script [Response 200 [], Response 500 [], Response 500 []] (Response 200 [])) ''T''))
      = [''https://a.test'', ''https://b.test'', ''https://c.test'']"
proof -
  let ?in = "inputs_with ''prod'' ''https://a.test,https://b.test,https://c.test'' ''3'' ''1''"
  let ?eps = "[''https://a.test'', ''https://b.test'', ''https://c.test'']"
  let ?bad = "script [Response 200 []] (Response 500 [])"
  let ?good = "script [Response 200 [], Response 500 [], Response 500 []] (Response 200 [])"
  let ?s = "snd (for_loop ?bad 3 1 [''https://a.test''] (started ''prod'' ?eps))"
  have h: "get_inputs ?in = Inr (''prod'', ?eps, 3, 1)"
    by code_simp
  have d: "?eps = [''https://a.test''] @ ''https://b.test'' # [''https://c.test'']" by simp
  have f: "for_loop ?bad 3 1 [''https://a.test''] (started ''prod'' ?eps) = (Normal, ?s)"
    by code_simp
  have c: "clock ?s = 1" by code_simp
  have x: "exhausts ?bad 3 (clock ?s) ''https://b.test''"
    unfolding c by (simp add: exhausts_def script_def)
  have m: "message_of (settle (?bad (clock ?s + (nat 3 - 1)) (trim ''https://b.test'') 5000))
           = ''HTTP Status: 500''"
    unfolding c by code_simp
  have r: "results ?s = [Healthy ''https://a.test'' 1]" by code_simp
  have o: "outputs_of (trace (run ?in ?good ''T'')) \<noteq> []" by code_simp
  note bad = reports_follow_endpoints [OF h, of ?bad "''T''"]
  note good = reports_follow_endpoints [OF h, of ?good "''T''"]
  from bad [THEN conjunct2, THEN conjunct2, THEN conjunct2, THEN conjunct2, THEN conjunct1,
      rule_format, of "[''https://a.test'']" "''https://b.test''" "[''https://c.test'']" ?s] d f x
  have "failures_of (trace (run ?in ?bad ''T'')) \<noteq> []
      \<and> results (run ?in ?bad ''T'')
          = results ?s @ [Unhealthy ''https://b.test''
               (message_of (settle (?bad (clock ?s + (nat 3 - 1)) (trim ''https://b.test'') 5000)))]"
    by blast
  then have 1: "failures_of (trace (run ?in ?bad ''T'')) \<noteq> []"
    and 2: "results (run ?in ?bad ''T'')
      = [Healthy ''https://a.test'' 1, Unhealthy ''https://b.test'' ''HTTP Status: 500'']"
    unfolding m r by simp_all
  have b: "(1::int) \<le> 3" by simp
  from good [THEN conjunct2, THEN conjunct2, THEN conjunct2, THEN conjunct2, THEN conjunct2] b o
  have 3: "map endpoint_of (results (run ?in ?good ''T'')) = ?eps"
    by blast
  show ?thesis by (intro conjI h d f x 1 2 b o 3)
qed

text \<open>
  C1, as the spec states it, fails: with two endpoints and a budget of 1, the
  first endpoint answers 500, the action throws, and the list of reports holds
  one report for two endpoints.
\<close>

theorem reports_follow_endpoints_counterexample:
  "split_comma ''https://a.test,https://b.test'' = [''https://a.test'', ''https://b.test'']
   \<and> results (run (inputs_with ''prod'' ''https://a.test,https://b.test'' ''1'' ''1'')
                 (script [] (Response 500 [])) ''T'')
      = [Unhealthy ''https://a.test'' ''HTTP Status: 500'']
   \<and> length (results (run (inputs_with ''prod'' ''https://a.test,https://b.test'' ''1'' ''1'')
                 (script [] (Response 500 [])) ''T''))
      \<noteq> length (split_comma ''https://a.test,https://b.test'')"
  by code_simp



text \<open>
  C3. When the loop reaches an endpoint whose probes fail \<open>k - 1\<close> times and
  then succeed, with \<open>1 \<le> k \<le> maxRetries\<close>, the loop for that endpoint ends
  normally after exactly \<open>k\<close> probes, its report is healthy with \<open>k\<close>
  attempts, the run goes on with the next endpoint, and the report stays in
  the results of the run at the position of the endpoint.
\<close>

theorem success_on_attempt_k:
  assumes "get_inputs getInput = Inr (environment, pre @ endpoint # post, maxRetries, retryDelay)"
    and "for_loop net maxRetries retryDelay pre (started environment (pre @ endpoint # post)) = (Normal, s)"
    and "1 \<le> k" and "int k \<le> maxRetries"
    and "\<forall>j<k - 1. is_Rejected (settle (net (clock s + j) (trim endpoint) 5000))"
    and "is_Resolved (settle (net (clock s + (k - 1)) (trim endpoint) 5000))"
  shows "\<exists>s'. while_loop net maxRetries retryDelay endpoint (0, False, s) = (Normal, int k - 1, True, s')
           \<and> results s' = results s @ [Healthy endpoint (int k)]
           \<and> probes_of (trace s') = probes_of (trace s) @ replicate k (trim endpoint)
           \<and> for_loop net maxRetries retryDelay (pre @ endpoint # post)
                (started environment (pre @ endpoint # post))
              = for_loop net maxRetries retryDelay post s'
           \<and> length pre < length (results (run getInput net now))
           \<and> results (run getInput net now) ! length pre = Healthy endpoint (int k)
           \<and> status_of (results (run getInput net now) ! length pre) = ''healthy''"
proof -
  let ?eps = "pre @ endpoint # post"
  from assms(3,4) have b: "0 + int (k - 1) < maxRetries" by simp
  from assms(5,6) b obtain s' where w: "while_loop net maxRetries retryDelay endpoint (0, False, s)
        = (Normal, 0 + int (k - 1), True, s')"
    and g: "grows s s' [Healthy endpoint (0 + int (k - 1) + 1)]
              (replicate (Suc (k - 1)) (trim endpoint)) (replicate (k - 1) (retryDelay * 1000))"
    using while_loop_success [where net = net and s = s and e = endpoint and n = "k - 1"
        and k = 0 and M = maxRetries and D = retryDelay] by blast
  from assms(3) have k: "0 + int (k - 1) = int k - 1" "0 + int (k - 1) + 1 = int k" "Suc (k - 1) = k"
    by simp_all
  from w k have w': "while_loop net maxRetries retryDelay endpoint (0, False, s) = (Normal, int k - 1, True, s')"
    by simp
  from g k have res: "results s' = results s @ [Healthy endpoint (int k)]"
    and pr: "probes_of (trace s') = probes_of (trace s) @ replicate k (trim endpoint)"
    by (simp_all add: grows_def)
  from assms(2) w' have f: "for_loop net maxRetries retryDelay ?eps (started environment ?eps)
      = for_loop net maxRetries retryDelay post s'"
    by (simp add: for_loop_append)
  from assms(3,4) have "1 \<le> maxRetries" by simp
  then have len: "length (results s) = length pre"
    by (rule for_loop_Normal_quiet(4) [OF assms(2)])
  obtain c1 s1 rs1 n1 where f1: "for_loop net maxRetries retryDelay post s' = (c1, s1)"
    and "accounted maxRetries retryDelay post c1 s' s1 rs1 n1"
    using for_loop_accounted [of net maxRetries retryDelay post s'] by blast
  then have "results s1 = results s' @ rs1"
    by (simp add: accounted_def grows_def)
  moreover from f f1 assms(1) have "results (run getInput net now) = results s1"
    using run_results_of_loop [of getInput environment ?eps maxRetries retryDelay net c1 s1 now]
    by simp
  ultimately have "results (run getInput net now) = results s @ Healthy endpoint (int k) # rs1"
    using res by simp
  with len have "length pre < length (results (run getInput net now))"
    and "results (run getInput net now) ! length pre = Healthy endpoint (int k)"
    by (simp_all add: nth_append)
  with w' res pr f show ?thesis by simp
qed

theorem success_on_attempt_k_witness:
  "get_inputs (inputs_with ''prod'' ''https://a.test,https://b.test'' ''3'' ''1'')
     = Inr (''prod'', [''https://a.test''] @ ''https://b.test'' # [], 3, 1)
   \<and> for_loop (script [Response 200 [], Response 500 [], Response 500 []] (Response 200 [])) 3 1
        [''https://a.test''] (started ''prod'' ([''https://a.test''] @ ''https://b.test'' # []))
      = (Normal, snd (for_loop (script [Response 200 [], Response 500 [], Response 500 []] (Response 200 [])) 3 1
        [''https://a.test''] (started ''prod'' ([''https://a.test''] @ ''https://b.test'' # []))))
   \<and> (1::nat) \<le> 3 \<and> int 3 \<le> 3
   \<and> is_Rejected (settle (script [Response 200 [], Response 500 [], Response 500 []] (Response 200 [])
          (clock (snd (for_loop (script [Response 200 [], Response 500 [], Response 500 []] (Response 200 [])) 3 1
             [''https://a.test''] (started ''prod'' ([''https://a.test''] @ ''https://b.test'' # [])))) + 0)
          (trim ''https://b.test'') 5000))
   \<and> is_Rejected (settle (script [Response 200 [], Response 500 [], Response 500 []] (Response 200 [])
          (clock (snd (for_loop (script [Response 200 [], Response 500 [], Response 500 []] (Response 200 [])) 3 1
             [''https://a.test''] (started ''prod'' ([''https://a.test''] @ ''https://b.test'' # [])))) + 1)
          (trim ''https://b.test'') 5000))
   \<and> is_Resolved (settle (script [Response 200 [], Response 500 [], Response 500 []] (Response 200 [])
          (clock (snd (for_loop (script [Response 200 [], Response 500 [], Response 500 []] (Response 200 [])) 3 1
             [''https://a.test''] (started ''prod'' ([''https://a.test''] @ ''https://b.test'' # [])))) + (3 - 1))
          (trim ''https://b.test'') 5000))
   \<and> results (run (inputs_with ''prod'' ''https://a.test,https://b.test'' ''3'' ''1'')
          (script [Response 200 [], Response 500 [], Response 500 []] (Response 200 [])) ''T'') ! length [''https://a.test'']
      = Healthy ''https://b.test'' (int 3)"
proof -
  let ?net = "script [Response 200 [], Response 500 [], Response 500 []] (Response 200 [])"
  let ?eps = "[''https://a.test''] @ ''https://b.test'' # []"
  let ?s = "snd (for_loop ?net 3 1 [''https://a.test''] (started ''prod'' ?eps))"
  have h1: "get_inputs (inputs_with ''prod'' ''https://a.test,https://b.test'' ''3'' ''1'')
     = Inr (''prod'', ?eps, 3, 1)"
    by code_simp
  have h2: "for_loop ?net 3 1 [''https://a.test''] (started ''prod'' ?eps) = (Normal, ?s)"
    by code_simp
  have h3: "(1::nat) \<le> 3" and h4: "int 3 \<le> 3" by simp_all
  have c: "clock ?s = 1" by code_simp
  have h5: "\<forall>j<3 - 1. is_Rejected (settle (?net (clock ?s + j) (trim ''https://b.test'') 5000))"
    unfolding c by (simp add: script_def less_Suc_eq numeral_2_eq_2)
  have h6: "is_Resolved (settle (?net (clock ?s + (3 - 1)) (trim ''https://b.test'') 5000))"
    unfolding c by (simp add: script_def)
  from success_on_attempt_k [OF h1 h2 h3 h4 h5 h6, of "''T''"]
  have "results (run (inputs_with ''prod'' ''https://a.test,https://b.test'' ''3'' ''1'') ?net ''T'')
          ! length [''https://a.test''] = Healthy ''https://b.test'' (int 3)"
    by blast
  moreover have "is_Rejected (settle (?net (clock ?s + 0) (trim ''https://b.test'') 5000))"
    and "is_Rejected (settle (?net (clock ?s + 1) (trim ''https://b.test'') 5000))"
    by (rule h5 [rule_format], simp)+
  ultimately show ?thesis using h1 h2 h3 h4 h6 by blast
qed

text \<open>
  C5 fails on the code. With the input \<^verbatim>\<open>retry-delay\<close> set to "0",
  \<^verbatim>\<open>parseInt\<close> gives 0, which is falsy, so \<^verbatim>\<open>|| 30\<close> replaces it by 30: the
  delay between the failed first probe and the second is 30000 ms, not zero.
\<close>

theorem zero_retry_delay_waits_thirty_seconds:
  "parseInt ''0'' = Some 0
   \<and> get_inputs (inputs_with ''prod'' ''https://a.test'' ''2'' ''0'')
       = Inr (''prod'', [''https://a.test''], 2, 30)
   \<and> sleeps_of (trace (run (inputs_with ''prod'' ''https://a.test'' ''2'' ''0'')
                         (script [Response 500 []] (Response 200 [])) ''T''))
       = [30000]
   \<and> results (run (inputs_with ''prod'' ''https://a.test'' ''2'' ''0'')
                         (script [Response 500 []] (Response 200 [])) ''T'')
       = [Healthy ''https://a.test'' 2]"
  by code_simp

text \<open>
  C6. With a budget of 1 the loop for an endpoint sends exactly one request
  and awaits no delay, whether the probe succeeds or fails; over a whole run
  no delay is awaited, and one request is sent, in order, for each endpoint
  that has a report and for the endpoint whose probe stays pending, where the
  run stops without an output and without a failure mark.
\<close>

theorem single_attempt_no_delay:
  assumes "get_inputs getInput = Inr (environment, endpoints, 1, retryDelay)"
  shows "sleeps_of (trace (run getInput net now)) = []
       \<and> probes_of (trace (run getInput net now))
           = map trim (take (if outputs_of (trace (run getInput net now)) = []
                                  \<and> failures_of (trace (run getInput net now)) = []
                               then Suc (length (results (run getInput net now)))
                               else length (results (run getInput net now))) endpoints)
       \<and> (\<forall>endpoint s.
            probes_of (trace (snd (snd (snd (while_loop net 1 retryDelay endpoint (0, False, s))))))
              = probes_of (trace s) @ [trim endpoint]
          \<and> sleeps_of (trace (snd (snd (snd (while_loop net 1 retryDelay endpoint (0, False, s))))))
              = sleeps_of (trace s))"
proof -
  have loop: "probes_of (trace (snd (snd (snd (while_loop net 1 retryDelay endpoint (0, False, s))))))
              = probes_of (trace s) @ [trim endpoint]
          \<and> sleeps_of (trace (snd (snd (snd (while_loop net 1 retryDelay endpoint (0, False, s))))))
              = sleeps_of (trace s)" for endpoint s
  proof -
    have "(0::int) < 1" by simp
    then show ?thesis
    proof (cases rule: while_loop_cases [of 0 1 net s endpoint retryDelay])
      case (success n s')
      from success(1) have "n = 0" by simp
      with success(4,5) show ?thesis by (simp add: grows_def)
    next
      case (exhausted n s')
      from exhausted(1) have "n = 0" by simp
      with exhausted(3,4) show ?thesis by (simp add: grows_def)
    next
      case (pending n s')
      from pending(1) have "n = 0" by simp
      with pending(4,5) show ?thesis by (simp add: grows_def)
    qed
  qed
  have run: "sleeps_of (trace (run getInput net now)) = []
       \<and> probes_of (trace (run getInput net now))
           = map trim (take (if outputs_of (trace (run getInput net now)) = []
                                  \<and> failures_of (trace (run getInput net now)) = []
                               then Suc (length (results (run getInput net now)))
                               else length (results (run getInput net now))) endpoints)"
    using assms
  proof (cases rule: run_cases [where net = net and now = now])
    case (completed s')
    from completed(3) have one: "\<forall>r\<in>set (results s'). attempts_of 1 r = 1"
      by (auto simp: accounted_def)
    from completed(3) have "sleeps_of (trace s') = sleeps_for 1 retryDelay (results s')"
      and "probes_of (trace s') = probes_for 1 (results s')"
      and "map endpoint_of (results s') = take (length (results s')) endpoints"
      by (simp_all add: accounted_def grows_def)
    with single_attempt_reports [OF one] completed(2) show ?thesis by simp
  next
    case (failed m s')
    from failed(3) have one: "\<forall>r\<in>set (results s'). attempts_of 1 r = 1"
      by (auto simp: accounted_def)
    from failed(3) have "sleeps_of (trace s') = sleeps_for 1 retryDelay (results s')"
      and "probes_of (trace s') = probes_for 1 (results s')"
      and "map endpoint_of (results s') = take (length (results s')) endpoints"
      by (simp_all add: accounted_def grows_def)
    with single_attempt_reports [OF one] failed(2) show ?thesis by simp
  next
    case (hung s' n)
    from hung(3) have one: "\<forall>r\<in>set (results s'). attempts_of 1 r = 1"
      by (auto simp: accounted_def)
    from hung(3) have n: "n = 1" and len: "length (results s') < length endpoints"
      by (simp_all add: accounted_def)
    from hung(3) n have "sleeps_of (trace s') = sleeps_for 1 retryDelay (results s')"
      and "probes_of (trace s') = probes_for 1 (results s') @ pending_block 1 (results s') endpoints"
      and "map endpoint_of (results s') = take (length (results s')) endpoints"
      and "outputs_of (trace s') = []" and "failures_of (trace s') = []"
      by (simp_all add: accounted_def grows_def)
    with single_attempt_reports [OF one] hung(2) len show ?thesis
      by (simp add: pending_block_nth take_Suc_conv_app_nth)
  qed
  from run loop show ?thesis by blast
qed

theorem single_attempt_no_delay_witness:
  "get_inputs (inputs_with ''prod'' ''https://a.test,https://b.test,https://c.test'' ''1'' ''7'')
     = Inr (''prod'', [''https://a.test'', ''https://b.test'', ''https://c.test''], 1, 7)
   \<and> sleeps_of (trace (run (inputs_with ''prod'' ''https://a.test,https://b.test,https://c.test'' ''1'' ''7'')
                         (script [Response 200 [], Timeout] (Response 200 [])) ''T'')) = []
   \<and> probes_of (trace (run (inputs_with ''prod'' ''https://a.test,https://b.test,https://c.test'' ''1'' ''7'')
                         (script [Response 200 [], Timeout] (Response 200 [])) ''T''))
       = [''https://a.test'', ''https://b.test'']
   \<and> probes_of (trace (run (inputs_with ''prod'' ''https://a.test,https://b.test,https://c.test'' ''1'' ''7'')
                         (script [Response 200 [], Aborted] (Response 200 [])) ''T''))
       = [''https://a.test'', ''https://b.test'']
   \<and> results (run (inputs_with ''prod'' ''https://a.test,https://b.test,https://c.test'' ''1'' ''7'')
                         (script [Response 200 [], Aborted] (Response 200 [])) ''T'')
       = [Healthy ''https://a.test'' 1]"
proof -
  let ?in = "inputs_with ''prod'' ''https://a.test,https://b.test,https://c.test'' ''1'' ''7''"
  let ?eps = "[''https://a.test'', ''https://b.test'', ''https://c.test'']"
  let ?run = "run ?in (script [Response 200 [], Timeout] (Response 200 [])) ''T''"
  let ?hung = "run ?in (script [Response 200 [], Aborted] (Response 200 [])) ''T''"
  have h: "get_inputs ?in = Inr (''prod'', ?eps, 1, 7)"
    by code_simp
  have n: "map trim (take (if outputs_of (trace ?run) = [] \<and> failures_of (trace ?run) = []
                           then Suc (length (results ?run)) else length (results ?run)) ?eps)
           = [''https://a.test'', ''https://b.test'']"
    by code_simp
  have n': "map trim (take (if outputs_of (trace ?hung) = [] \<and> failures_of (trace ?hung) = []
                           then Suc (length (results ?hung)) else length (results ?hung)) ?eps)
           = [''https://a.test'', ''https://b.test'']"
    by code_simp
  have r': "results ?hung = [Healthy ''https://a.test'' 1]" by code_simp
  note t = single_attempt_no_delay [OF h, of "script [Response 200 [], Timeout] (Response 200 [])" "''T''"]
  note t' = single_attempt_no_delay [OF h, of "script [Response 200 [], Aborted] (Response 200 [])" "''T''"]
  from t have 1: "sleeps_of (trace ?run) = []" by (rule conjunct1)
  from t [THEN conjunct2, THEN conjunct1] have 2: "probes_of (trace ?run) = [''https://a.test'', ''https://b.test'']"
    unfolding n .
  from t' [THEN conjunct2, THEN conjunct1] have 3: "probes_of (trace ?hung) = [''https://a.test'', ''https://b.test'']"
    unfolding n' .
  show ?thesis by (intro conjI h 1 2 3 r')
qed

text \<open>
  C7. The requests of a run are exactly those its reports account for, each
  report standing for at least 1 and at most \<open>maxRetries\<close> probes of its
  endpoint, followed, when a probe stays pending, by at most \<open>maxRetries\<close>
  probes of the next endpoint. In the loop for one endpoint, started from any values of its
  variables with \<open>retries \<le> maxRetries\<close>, the counter stays at most
  \<open>maxRetries\<close>, at most \<open>maxRetries - retries\<close> requests are sent, and any
  attempts recorded are at most \<open>maxRetries\<close>.
\<close>

theorem attempts_within_budget:
  assumes "get_inputs getInput = Inr (environment, endpoints, maxRetries, retryDelay)"
  shows "(\<exists>n. probes_of (trace (run getInput net now))
               = probes_for maxRetries (results (run getInput net now))
                 @ pending_block n (results (run getInput net now)) endpoints
            \<and> (n = 0 \<or> 1 \<le> n \<and> int n \<le> maxRetries
                  \<and> length (results (run getInput net now)) < length endpoints
                  \<and> outputs_of (trace (run getInput net now)) = []
                  \<and> failures_of (trace (run getInput net now)) = []))
       \<and> (\<forall>r\<in>set (results (run getInput net now)).
             1 \<le> attempts_of maxRetries r \<and> attempts_of maxRetries r \<le> maxRetries
           \<and> int (length (probes_for maxRetries [r])) \<le> maxRetries)
       \<and> (\<forall>endpoint retries success s. retries \<le> maxRetries \<longrightarrow>
            (case while_loop net maxRetries retryDelay endpoint (retries, success, s) of
               (c, retries', success', s') \<Rightarrow>
                 retries \<le> retries' \<and> retries' \<le> maxRetries
               \<and> int (length (probes_of (trace s'))) - int (length (probes_of (trace s)))
                    \<le> maxRetries - retries
               \<and> (\<forall>r\<in>set (drop (length (results s)) (results s')).
                     attempts_of maxRetries r \<le> maxRetries)))"
proof -
  from run_accounted [OF assms, of net now]
  have pend: "\<exists>n. probes_of (trace (run getInput net now))
               = probes_for maxRetries (results (run getInput net now))
                 @ pending_block n (results (run getInput net now)) endpoints
            \<and> (n = 0 \<or> 1 \<le> n \<and> int n \<le> maxRetries
                  \<and> length (results (run getInput net now)) < length endpoints
                  \<and> outputs_of (trace (run getInput net now)) = []
                  \<and> failures_of (trace (run getInput net now)) = [])"
    by blast
  have run: "\<forall>r\<in>set (results (run getInput net now)).
             1 \<le> attempts_of maxRetries r \<and> attempts_of maxRetries r \<le> maxRetries"
    using assms
  proof (cases rule: run_cases [where net = net and now = now])
    case (completed s')
    from completed(3) have "\<forall>r\<in>set (results s'). 1 \<le> attempts_of maxRetries r \<and> attempts_of maxRetries r \<le> maxRetries"
      by (simp add: accounted_def)
    with completed(2) show ?thesis by simp
  next
    case (failed m s')
    from failed(3) have "\<forall>r\<in>set (results s'). 1 \<le> attempts_of maxRetries r \<and> attempts_of maxRetries r \<le> maxRetries"
      by (simp add: accounted_def)
    with failed(2) show ?thesis by simp
  next
    case (hung s' n)
    from hung(3) have "\<forall>r\<in>set (results s'). 1 \<le> attempts_of maxRetries r \<and> attempts_of maxRetries r \<le> maxRetries"
      by (simp add: accounted_def)
    with hung(2) show ?thesis by simp
  qed
  have blocks: "\<forall>r\<in>set (results (run getInput net now)).
             1 \<le> attempts_of maxRetries r \<and> attempts_of maxRetries r \<le> maxRetries
           \<and> int (length (probes_for maxRetries [r])) \<le> maxRetries"
  proof
    fix r assume "r \<in> set (results (run getInput net now))"
    with run have a: "1 \<le> attempts_of maxRetries r \<and> attempts_of maxRetries r \<le> maxRetries"
      by blast
    then have "int (length (probes_for maxRetries [r])) = attempts_of maxRetries r"
      by simp
    with a show "1 \<le> attempts_of maxRetries r \<and> attempts_of maxRetries r \<le> maxRetries
           \<and> int (length (probes_for maxRetries [r])) \<le> maxRetries"
      by simp
  qed
  have loop: "\<forall>endpoint retries success s. retries \<le> maxRetries \<longrightarrow>
            (case while_loop net maxRetries retryDelay endpoint (retries, success, s) of
               (c, retries', success', s') \<Rightarrow>
                 retries \<le> retries' \<and> retries' \<le> maxRetries
               \<and> int (length (probes_of (trace s'))) - int (length (probes_of (trace s)))
                    \<le> maxRetries - retries
               \<and> (\<forall>r\<in>set (drop (length (results s)) (results s')).
                     attempts_of maxRetries r \<le> maxRetries))"
  proof (intro allI impI)
    fix endpoint retries success s
    assume le: "retries \<le> maxRetries"
    obtain c retries' success' s' where
      w: "while_loop net maxRetries retryDelay endpoint (retries, success, s) = (c, retries', success', s')"
      by (metis prod_cases4)
    from while_loop_within_budget [OF le w] w
    show "case while_loop net maxRetries retryDelay endpoint (retries, success, s) of
               (c, retries', success', s') \<Rightarrow>
                 retries \<le> retries' \<and> retries' \<le> maxRetries
               \<and> int (length (probes_of (trace s'))) - int (length (probes_of (trace s)))
                    \<le> maxRetries - retries
               \<and> (\<forall>r\<in>set (drop (length (results s)) (results s')).
                     attempts_of maxRetries r \<le> maxRetries)"
      by simp
  qed
  from pend blocks loop show ?thesis by blast
qed

theorem attempts_within_budget_witness:
  "get_inputs (inputs_with ''prod'' ''https://a.test,https://b.test'' ''3'' ''1'')
     = Inr (''prod'', [''https://a.test'', ''https://b.test''], 3, 1)
   \<and> results (run (inputs_with ''prod'' ''https://a.test,https://b.test'' ''3'' ''1'')
        (script [Response 500 [], Response 200 []] (Response 500 [])) ''T'')
      = [Healthy ''https://a.test'' 2, Unhealthy ''https://b.test'' ''HTTP Status: 500'']
   \<and> probes_of (trace (run (inputs_with ''prod'' ''https://a.test,https://b.test'' ''3'' ''1'')
        (script [Response 500 [], Response 200 []] (Response 500 [])) ''T''))
      = [''https://a.test'', ''https://a.test'', ''https://b.test'', ''https://b.test'', ''https://b.test'']
   \<and> (0::int) \<le> 3
   \<and> (case while_loop (script [Response 500 [], Response 200 []] (Response 500 [])) 3 1 ''https://a.test''
              (0, False, started ''prod'' [''https://a.test'', ''https://b.test'']) of
         (c, retries', success', s') \<Rightarrow> retries' \<le> 3 \<and> int (length (probes_of (trace s'))) \<le> 3)"
proof -
  let ?net = "script [Response 500 [], Response 200 []] (Response 500 [])"
  let ?run = "run (inputs_with ''prod'' ''https://a.test,https://b.test'' ''3'' ''1'') ?net ''T''"
  let ?s = "started ''prod'' [''https://a.test'', ''https://b.test'']"
  have h: "get_inputs (inputs_with ''prod'' ''https://a.test,https://b.test'' ''3'' ''1'')
     = Inr (''prod'', [''https://a.test'', ''https://b.test''], 3, 1)"
    by code_simp
  have r: "results ?run = [Healthy ''https://a.test'' 2, Unhealthy ''https://b.test'' ''HTTP Status: 500'']"
    by code_simp
  have p: "probes_for 3 [Healthy ''https://a.test'' 2, Unhealthy ''https://b.test'' ''HTTP Status: 500'']
      = [''https://a.test'', ''https://a.test'', ''https://b.test'', ''https://b.test'', ''https://b.test'']"
    by code_simp
  note t = attempts_within_budget [OF h, of ?net "''T''"]
  from t obtain n where "probes_of (trace ?run)
      = probes_for 3 (results ?run) @ pending_block n (results ?run) [''https://a.test'', ''https://b.test'']"
    by blast
  with r p have 1: "probes_of (trace ?run)
      = [''https://a.test'', ''https://a.test'', ''https://b.test'', ''https://b.test'', ''https://b.test'']"
    by simp
  note l = t [THEN conjunct2, THEN conjunct2, rule_format,
      where endpoint = "''https://a.test''" and retries = 0 and success = False and s = ?s]
  have "(0::int) \<le> 3" by simp
  from l [OF this]
  have "case while_loop ?net 3 1 ''https://a.test'' (0, False, ?s) of
               (c, retries', success', s') \<Rightarrow>
                 0 \<le> retries' \<and> retries' \<le> 3
               \<and> int (length (probes_of (trace s'))) - int (length (probes_of (trace ?s))) \<le> 3 - 0
               \<and> (\<forall>r\<in>set (drop (length (results ?s)) (results s')). attempts_of 3 r \<le> 3)" .
  then have 2: "case while_loop ?net 3 1 ''https://a.test'' (0, False, ?s) of
         (c, retries', success', s') \<Rightarrow> retries' \<le> 3 \<and> int (length (probes_of (trace s'))) \<le> 3"
    by (auto split: prod.splits)
  from h r 1 2 show ?thesis by simp
qed

text \<open>
  C9, as the code has it: for a budget of at least 1. The three outputs are
  set together, and exactly when there is a healthy report for each of the
  endpoints. Once a report is unhealthy no output is set, that report is the
  last one, the run is marked as failed and the requests sent are those the
  reports account for. When the loop reaches an endpoint that exhausts its
  budget, no output is set and the last requests of the run are the probes of
  that endpoint: the loop over the endpoints ends with the throw, in the same
  state whatever endpoints follow.
\<close>

theorem outputs_only_when_all_healthy:
  assumes "get_inputs getInput = Inr (environment, endpoints, maxRetries, retryDelay)"
    and "1 \<le> maxRetries"
  shows "outputs_of (trace (run getInput net now))
           = (if map endpoint_of (results (run getInput net now)) = endpoints
                 \<and> (\<forall>r\<in>set (results (run getInput net now)). status_of r = ''healthy'')
              then [(''status'', Str ''success''), (''timestamp'', Str now),
                    (''results'', Json (results (run getInput net now)))]
              else [])
       \<and> ((\<exists>r\<in>set (results (run getInput net now)). status_of r = ''unhealthy'')
            \<longrightarrow> outputs_of (trace (run getInput net now)) = []
              \<and> status_of (last (results (run getInput net now))) = ''unhealthy''
              \<and> failures_of (trace (run getInput net now)) \<noteq> []
              \<and> probes_of (trace (run getInput net now))
                  = probes_for maxRetries (results (run getInput net now)))
       \<and> (\<forall>pre endpoint post s.
              endpoints = pre @ endpoint # post
            \<and> for_loop net maxRetries retryDelay pre (started environment endpoints) = (Normal, s)
            \<and> exhausts net maxRetries (clock s) endpoint
            \<longrightarrow> outputs_of (trace (run getInput net now)) = []
              \<and> probes_of (trace (run getInput net now))
                  = probes_of (trace s) @ replicate (nat maxRetries) (trim endpoint))
       \<and> map endpoint_of (results (run getInput net now))
           = take (length (results (run getInput net now))) endpoints
       \<and> (\<forall>r\<in>set (butlast (results (run getInput net now))). status_of r = ''healthy'')
       \<and> (\<forall>pre post m s s'. for_loop net maxRetries retryDelay pre s = (Throw m, s')
            \<longrightarrow> for_loop net maxRetries retryDelay (pre @ post) s = (Throw m, s'))"
proof -
  let ?rs = "results (run getInput net now)"
  let ?tr = "trace (run getInput net now)"
  let ?s0 = "started environment endpoints"
  have cut: "\<forall>pre post m s s'. for_loop net maxRetries retryDelay pre s = (Throw m, s')
            \<longrightarrow> for_loop net maxRetries retryDelay (pre @ post) s = (Throw m, s')"
    by (simp add: for_loop_append)
  have reach: "outputs_of ?tr = []
      \<and> probes_of ?tr = probes_of (trace s) @ replicate (nat maxRetries) (trim endpoint)"
    if "endpoints = pre @ endpoint # post"
      and "for_loop net maxRetries retryDelay pre ?s0 = (Normal, s)"
      and "exhausts net maxRetries (clock s) endpoint" for pre endpoint post s
  proof -
    from assms(1) that(1) have g: "get_inputs getInput
        = Inr (environment, pre @ endpoint # post, maxRetries, retryDelay)" by simp
    from that(1,2) have f: "for_loop net maxRetries retryDelay pre
        (started environment (pre @ endpoint # post)) = (Normal, s)" by simp
    from run_exhausted [OF g f that(3), of now] show ?thesis by simp
  qed
  from assms(1) have main: "outputs_of ?tr
           = (if map endpoint_of ?rs = endpoints \<and> (\<forall>r\<in>set ?rs. status_of r = ''healthy'')
              then [(''status'', Str ''success''), (''timestamp'', Str now), (''results'', Json ?rs)]
              else [])
       \<and> ((\<exists>r\<in>set ?rs. status_of r = ''unhealthy'')
            \<longrightarrow> outputs_of ?tr = []
              \<and> status_of (last ?rs) = ''unhealthy''
              \<and> failures_of ?tr \<noteq> []
              \<and> probes_of ?tr = probes_for maxRetries ?rs)
       \<and> map endpoint_of ?rs = take (length ?rs) endpoints
       \<and> (\<forall>r\<in>set (butlast ?rs). status_of r = ''healthy'')"
  proof (cases rule: run_cases [where net = net and now = now])
    case (completed s')
    from completed(2) have r: "?rs = results s'"
      and o: "outputs_of ?tr
              = outputs_of (trace s') @ [(''status'', Str ''success''), (''timestamp'', Str now),
                    (''results'', Json (results s'))]"
      by simp_all
    from completed(3) assms(2) have a: "outputs_of (trace s') = []"
      "map endpoint_of (results s') = take (length (results s')) endpoints"
      "\<forall>r\<in>set (results s'). status_of r = ''healthy''"
      "length (results s') = length endpoints"
      by (simp_all add: accounted_def grows_def)
    from a(3) have h: "\<forall>r\<in>set (butlast (results s')). status_of r = ''healthy''"
      by (meson in_set_butlastD)
    from a(3) have u: "\<not> (\<exists>r\<in>set (results s'). status_of r = ''unhealthy'')"
      by auto
    from a(2,4) have e: "map endpoint_of (results s') = endpoints" by simp
    show ?thesis
      unfolding r o using a(1,2,3) h u e by simp
  next
    case (failed m s')
    from failed(2) have r: "?rs = results s'"
      and o: "outputs_of ?tr = outputs_of (trace s')"
      and p: "probes_of ?tr = probes_of (trace s')"
      and f: "failures_of ?tr \<noteq> []"
      by simp_all
    from failed(3) have a: "outputs_of (trace s') = []"
      "probes_of (trace s') = probes_for maxRetries (results s')"
      "map endpoint_of (results s') = take (length (results s')) endpoints"
      "\<forall>r\<in>set (butlast (results s')). status_of r = ''healthy''"
      "results s' \<noteq> []" "status_of (last (results s')) = ''unhealthy''"
      by (simp_all add: accounted_def grows_def)
    from a(5,6) have n: "\<not> (\<forall>r\<in>set (results s'). status_of r = ''healthy'')"
      using last_in_set [of "results s'"] by force
    show ?thesis
      unfolding r o p using a f n by simp
  next
    case (hung s' n)
    from hung(2) have r: "?rs = results s'"
      and o: "outputs_of ?tr = outputs_of (trace s')"
      by simp_all
    from hung(3) have a: "outputs_of (trace s') = []"
      "map endpoint_of (results s') = take (length (results s')) endpoints"
      "\<forall>r\<in>set (results s'). status_of r = ''healthy''"
      "length (results s') < length endpoints"
      by (simp_all add: accounted_def grows_def)
    from a(3) have h: "\<forall>r\<in>set (butlast (results s')). status_of r = ''healthy''"
      by (meson in_set_butlastD)
    from a(3) have u: "\<not> (\<exists>r\<in>set (results s'). status_of r = ''unhealthy'')"
      by auto
    from a(4) have e: "map endpoint_of (results s') \<noteq> endpoints"
      by (metis length_map less_irrefl)
    show ?thesis
      unfolding r o using a(1,2) h u e by simp
  qed
  from main reach cut show ?thesis by blast
qed

theorem outputs_only_when_all_healthy_witness:
  "get_inputs (inputs_with ''prod'' ''https://a.test,https://b.test,https://c.test'' ''2'' ''1'')
     = Inr (''prod'', [''https://a.test'', ''https://b.test'', ''https://c.test''], 2, 1)
   \<and> (1::int) \<le> 2
   \<and> results (run (inputs_with ''prod'' ''https://a.test,https://b.test,https://c.test'' ''2'' ''1'')
        (script [Response 200 []] (Response 503 [])) ''T'')
      = [Healthy ''https://a.test'' 1, Unhealthy ''https://b.test'' ''HTTP Status: 503'']
   \<and> outputs_of (trace (run (inputs_with ''prod'' ''https://a.test,https://b.test,https://c.test'' ''2'' ''1'')
        (script [Response 200 []] (Response 503 [])) ''T'')) = []
   \<and> probes_of (trace (run (inputs_with ''prod'' ''https://a.test,https://b.test,https://c.test'' ''2'' ''1'')
        (script [Response 200 []] (Response 503 [])) ''T''))
      = [''https://a.test'', ''https://b.test'', ''https://b.test'']
   \<and> outputs_of (trace (run (inputs_with ''prod'' ''https://a.test,https://b.test,https://c.test'' ''2'' ''1'')
        (script [] (Response 200 [])) ''T''))
      = [(''status'', Str ''success''), (''timestamp'', Str ''T''),
         (''results'', Json [Healthy ''https://a.test'' 1, Healthy ''https://b.test'' 1,
                             Healthy ''https://c.test'' 1])]
   \<and> [''https://a.test'', ''https://b.test'', ''https://c.test'']
       = [''https://a.test''] @ ''https://b.test'' # [''https://c.test'']
   \<and> for_loop (script [Response 200 []] (Response 503 [])) 2 1 [''https://a.test'']
        (started ''prod'' [''https://a.test'', ''https://b.test'', ''https://c.test''])
      = (Normal, snd (for_loop (script [Response 200 []] (Response 503 [])) 2 1 [''https://a.test'']
                (started ''prod'' [''https://a.test'', ''https://b.test'', ''https://c.test''])))
   \<and> exhausts (script [Response 200 []] (Response 503 [])) 2
        (clock (snd (for_loop (script [Response 200 []] (Response 503 [])) 2 1 [''https://a.test'']
                (started ''prod'' [''https://a.test'', ''https://b.test'', ''https://c.test''])))) ''https://b.test''
   \<and> for_loop (script [Response 200 []] (Response 503 [])) 2 1 [''https://a.test'', ''https://b.test'']
        (started ''prod'' [''https://a.test'', ''https://b.test'', ''https://c.test''])
      = (Throw ''Failed to verify endpoint https://b.test after 2 attempts: HTTP Status: 503'',
         snd (for_loop (script [Response 200 []] (Response 503 [])) 2 1 [''https://a.test'', ''https://b.test'']
                (started ''prod'' [''https://a.test'', ''https://b.test'', ''https://c.test''])))
   \<and> for_loop (script [Response 200 []] (Response 503 [])) 2 1
        ([''https://a.test'', ''https://b.test''] @ [''https://c.test''])
        (started ''prod'' [''https://a.test'', ''https://b.test'', ''https://c.test''])
      = (Throw ''Failed to verify endpoint https://b.test after 2 attempts: HTTP Status: 503'',
         snd (for_loop (script [Response 200 []] (Response 503 [])) 2 1 [''https://a.test'', ''https://b.test'']
                (started ''prod'' [''https://a.test'', ''https://b.test'', ''https://c.test''])))"
proof -
  let ?in = "inputs_with ''prod'' ''https://a.test,https://b.test,https://c.test'' ''2'' ''1''"
  let ?eps = "[''https://a.test'', ''https://b.test'', ''https://c.test'']"
  let ?net = "script [Response 200 []] (Response 503 [])"
  let ?bad = "run ?in ?net ''T''"
  let ?good = "run ?in (script [] (Response 200 [])) ''T''"
  let ?s = "snd (for_loop ?net 2 1 [''https://a.test''] (started ''prod'' ?eps))"
  have h: "get_inputs ?in = Inr (''prod'', ?eps, 2, 1)"
    by code_simp
  have m: "(1::int) \<le> 2" by simp
  have rb: "results ?bad = [Healthy ''https://a.test'' 1, Unhealthy ''https://b.test'' ''HTTP Status: 503'']"
    by code_simp
  have rg: "results ?good = [Healthy ''https://a.test'' 1, Healthy ''https://b.test'' 1,
                             Healthy ''https://c.test'' 1]"
    by code_simp
  have pf: "probes_for 2 [Healthy ''https://a.test'' 1, Unhealthy ''https://b.test'' ''HTTP Status: 503'']
      = [''https://a.test'', ''https://b.test'', ''https://b.test'']"
    by code_simp
  note b = outputs_only_when_all_healthy [OF h m, of ?net "''T''"]
  note g = outputs_only_when_all_healthy [OF h m, of "script [] (Response 200 [])" "''T''"]
  from b have "(\<exists>r\<in>set (results ?bad). status_of r = ''unhealthy'') \<longrightarrow> outputs_of (trace ?bad) = []
              \<and> status_of (last (results ?bad)) = ''unhealthy''
              \<and> failures_of (trace ?bad) \<noteq> []
              \<and> probes_of (trace ?bad) = probes_for 2 (results ?bad)"
    by blast
  with rb pf have 1: "outputs_of (trace ?bad) = []"
    and 2: "probes_of (trace ?bad) = [''https://a.test'', ''https://b.test'', ''https://b.test'']"
    by simp_all
  from g have "outputs_of (trace ?good)
           = (if map endpoint_of (results ?good) = ?eps
                 \<and> (\<forall>r\<in>set (results ?good). status_of r = ''healthy'')
              then [(''status'', Str ''success''), (''timestamp'', Str ''T''),
                    (''results'', Json (results ?good))]
              else [])"
    by blast
  with rg have 3: "outputs_of (trace ?good)
      = [(''status'', Str ''success''), (''timestamp'', Str ''T''),
         (''results'', Json [Healthy ''https://a.test'' 1, Healthy ''https://b.test'' 1,
                             Healthy ''https://c.test'' 1])]"
    by simp
  have d: "?eps = [''https://a.test''] @ ''https://b.test'' # [''https://c.test'']" by simp
  have f: "for_loop ?net 2 1 [''https://a.test''] (started ''prod'' ?eps) = (Normal, ?s)"
    by code_simp
  have c: "clock ?s = 1" by code_simp
  have x: "exhausts ?net 2 (clock ?s) ''https://b.test''"
    unfolding c by (simp add: exhausts_def script_def)
  from b [THEN conjunct2, THEN conjunct2, THEN conjunct1, rule_format,
      of "[''https://a.test'']" "''https://b.test''" "[''https://c.test'']" ?s] d f x
  have 5: "outputs_of (trace ?bad) = []" by blast
  have fl: "for_loop ?net 2 1 [''https://a.test'', ''https://b.test''] (started ''prod'' ?eps)
      = (Throw ''Failed to verify endpoint https://b.test after 2 attempts: HTTP Status: 503'',
         snd (for_loop ?net 2 1 [''https://a.test'', ''https://b.test''] (started ''prod'' ?eps)))"
    by code_simp
  note 4 = b [THEN conjunct2, THEN conjunct2, THEN conjunct2, THEN conjunct2, THEN conjunct2,
      rule_format, OF fl, of "[''https://c.test'']"]
  show ?thesis by (intro conjI h m rb 5 2 3 d f x fl 4)
qed

text \<open>
  C9, as it is stated, fails: with the input \<^verbatim>\<open>max-retries\<close> set to "-1"
  no loop is entered and nothing is probed, yet the outputs are set, with an
  empty list of reports for two endpoints.
\<close>

theorem outputs_only_when_all_healthy_counterexample:
  "get_inputs (inputs_with ''prod'' ''https://a.test,https://b.test'' ''-1'' ''1'')
     = Inr (''prod'', [''https://a.test'', ''https://b.test''], - 1, 1)
   \<and> results (run (inputs_with ''prod'' ''https://a.test,https://b.test'' ''-1'' ''1'')
                 (script [] (Response 500 [])) ''T'') = []
   \<and> probes_of (trace (run (inputs_with ''prod'' ''https://a.test,https://b.test'' ''-1'' ''1'')
                      (script [] (Response 500 [])) ''T'')) = []
   \<and> outputs_of (trace (run (inputs_with ''prod'' ''https://a.test,https://b.test'' ''-1'' ''1'')
                      (script [] (Response 500 [])) ''T''))
       = [(''status'', Str ''success''), (''timestamp'', Str ''T''), (''results'', Json [])]"
  by code_simp

text \<open>
  C10. The endpoints are the pieces of the \<^verbatim>\<open>endpoints\<close> input between
  commas. Each report carries its piece as it is, white space included, and
  each request goes to the trimmed piece: the requests are the probes the
  reports account for, each to the trimmed endpoint of its report, followed,
  when a probe stays pending, by the probes of the next piece, trimmed.
\<close>

theorem reports_keep_untrimmed_endpoint:
  assumes "getInput ''environment'' True = Inr environment"
    and "getInput ''endpoints'' True = Inr e"
    and "getInput ''max-retries'' False = Inr mr"
    and "getInput ''retry-delay'' False = Inr rd"
  shows "map endpoint_of (results (run getInput net now))
           = take (length (results (run getInput net now))) (split_comma e)
       \<and> (\<exists>n. probes_of (trace (run getInput net now))
                = concat (map (\<lambda>r. replicate (nat (attempts_of (or_default (parseInt mr) 5) r))
                                      (trim (endpoint_of r)))
                           (results (run getInput net now)))
                  @ pending_block n (results (run getInput net now)) (split_comma e))
       \<and> set (probes_of (trace (run getInput net now))) \<subseteq> trim ` set (split_comma e)"
proof -
  let ?M = "or_default (parseInt mr) 5"
  let ?rs = "results (run getInput net now)"
  from assms have g: "get_inputs getInput
      = Inr (environment, split_comma e, ?M, or_default (parseInt rd) 30)"
    by (simp add: get_inputs_def)
  from run_accounted [OF g, of net now] obtain n where
    p: "probes_of (trace (run getInput net now)) = probes_for ?M ?rs @ pending_block n ?rs (split_comma e)"
    by blast
  from g have 1: "map endpoint_of ?rs = take (length ?rs) (split_comma e)"
  proof (cases rule: run_cases [where net = net and now = now])
    case (completed s')
    from completed(3) have "map endpoint_of (results s') = take (length (results s')) (split_comma e)"
      by (simp add: accounted_def)
    with completed(2) show ?thesis by simp
  next
    case (failed m s')
    from failed(3) have "map endpoint_of (results s') = take (length (results s')) (split_comma e)"
      by (simp add: accounted_def)
    with failed(2) show ?thesis by simp
  next
    case (hung s' k)
    from hung(3) have "map endpoint_of (results s') = take (length (results s')) (split_comma e)"
      by (simp add: accounted_def)
    with hung(2) show ?thesis by simp
  qed
  have "endpoint_of ` set ?rs = set (map endpoint_of ?rs)" by simp
  also from 1 have "\<dots> = set (take (length ?rs) (split_comma e))" by simp
  also have "\<dots> \<subseteq> set (split_comma e)" by (rule set_take_subset)
  finally have "trim ` endpoint_of ` set ?rs \<subseteq> trim ` set (split_comma e)" by blast
  with probes_for_subset [of ?M ?rs] pending_block_subset [of n ?rs "split_comma e"] p
  have 2: "set (probes_of (trace (run getInput net now))) \<subseteq> trim ` set (split_comma e)"
    by auto
  from p have 3: "\<exists>n. probes_of (trace (run getInput net now))
                = concat (map (\<lambda>r. replicate (nat (attempts_of ?M r)) (trim (endpoint_of r))) ?rs)
                  @ pending_block n ?rs (split_comma e)"
    unfolding probes_for_def by blast
  from 1 2 3 show ?thesis by blast
qed

theorem reports_keep_untrimmed_endpoint_witness:
  "inputs_with ''prod'' ''https://a.test , https://b.test'' ''3'' ''1'' ''environment'' True = Inr ''prod''
   \<and> inputs_with ''prod'' ''https://a.test , https://b.test'' ''3'' ''1'' ''endpoints'' True
       = Inr ''https://a.test , https://b.test''
   \<and> inputs_with ''prod'' ''https://a.test , https://b.test'' ''3'' ''1'' ''max-retries'' False = Inr ''3''
   \<and> inputs_with ''prod'' ''https://a.test , https://b.test'' ''3'' ''1'' ''retry-delay'' False = Inr ''1''
   \<and> results (run (inputs_with ''prod'' ''https://a.test , https://b.test'' ''3'' ''1'')
                 (script [Response 500 []] (Response 200 [])) ''T'')
       = [Healthy ''https://a.test '' 2, Healthy '' https://b.test'' 1]
   \<and> map endpoint_of (results (run (inputs_with ''prod'' ''https://a.test , https://b.test'' ''3'' ''1'')
                 (script [Response 500 []] (Response 200 [])) ''T''))
       = [''https://a.test '', '' https://b.test'']
   \<and> probes_of (trace (run (inputs_with ''prod'' ''https://a.test , https://b.test'' ''3'' ''1'')
                 (script [Response 500 []] (Response 200 [])) ''T''))
       = [''https://a.test'', ''https://a.test'', ''https://b.test'']"
proof -
  let ?in = "inputs_with ''prod'' ''https://a.test , https://b.test'' ''3'' ''1''"
  let ?run = "run ?in (script [Response 500 []] (Response 200 [])) ''T''"
  have h1: "?in ''environment'' True = Inr ''prod''" by code_simp
  have h2: "?in ''endpoints'' True = Inr ''https://a.test , https://b.test''" by code_simp
  have h3: "?in ''max-retries'' False = Inr ''3''" by code_simp
  have h4: "?in ''retry-delay'' False = Inr ''1''" by code_simp
  have r: "results ?run = [Healthy ''https://a.test '' 2, Healthy '' https://b.test'' 1]"
    by code_simp
  have c: "concat (map (\<lambda>r. replicate (nat (attempts_of (or_default (parseInt ''3'') 5) r))
                                 (trim (endpoint_of r)))
                      [Healthy ''https://a.test '' 2, Healthy '' https://b.test'' 1])
     = [''https://a.test'', ''https://a.test'', ''https://b.test'']"
    by code_simp
  have t: "take (length [Healthy ''https://a.test '' 2, Healthy '' https://b.test'' 1])
             (split_comma ''https://a.test , https://b.test'')
           = [''https://a.test '', '' https://b.test'']"
    by code_simp
  note th = reports_keep_untrimmed_endpoint [where getInput = ?in
      and net = "script [Response 500 []] (Response 200 [])" and now = "''T''",
      OF h1 h2 h3 h4, unfolded r]
  from th have "map endpoint_of [Healthy ''https://a.test '' 2, Healthy '' https://b.test'' 1]
           = take (length [Healthy ''https://a.test '' 2, Healthy '' https://b.test'' 1])
               (split_comma ''https://a.test , https://b.test'')"
    by (rule conjunct1)
  then have 1: "map endpoint_of [Healthy ''https://a.test '' 2, Healthy '' https://b.test'' 1]
       = [''https://a.test '', '' https://b.test'']"
    unfolding t .
  have pb: "pending_block n [Healthy ''https://a.test '' 2, Healthy '' https://b.test'' 1]
              (split_comma ''https://a.test , https://b.test'') = []" for n
    by (simp add: pending_block_def)
  from th [THEN conjunct2, THEN conjunct1] have "probes_of (trace ?run)
           = concat (map (\<lambda>r. replicate (nat (attempts_of (or_default (parseInt ''3'') 5) r))
                                 (trim (endpoint_of r)))
                [Healthy ''https://a.test '' 2, Healthy '' https://b.test'' 1])"
    unfolding pb by simp
  then have 2: "probes_of (trace ?run) = [''https://a.test'', ''https://a.test'', ''https://b.test'']"
    unfolding c .
  show ?thesis
    unfolding r by (intro conjI h1 h2 h3 h4 1 2 refl)
qed

end
